theory Spec2Isabelle
  imports Complex_Main
begin

section \<open>Tensor scalars\<close>

text \<open>
  The program computes with float32 tensors. Their finite values are modelled as real
  numbers (rounding and overflow are outside the model); the one non-number that the
  program can produce from finite inputs, the result of \<open>0 / 0\<close>, is kept as \<open>NaN\<close>,
  and every arithmetic operation propagates it, as IEEE arithmetic does.
\<close>

datatype tfloat = Fin real | NaN

fun tf_add :: "tfloat \<Rightarrow> tfloat \<Rightarrow> tfloat" where
  "tf_add (Fin a) (Fin b) = Fin (a + b)"
| "tf_add _ _ = NaN"

fun tf_sub :: "tfloat \<Rightarrow> tfloat \<Rightarrow> tfloat" where
  "tf_sub (Fin a) (Fin b) = Fin (a - b)"
| "tf_sub _ _ = NaN"

text \<open>
  Division: \<open>0 / 0\<close> is NaN. A nonzero value over zero is an infinity in IEEE arithmetic;
  the model has no infinities, and no function below divides a nonzero value by zero
  (see \<open>std_reward_positive\<close>), so that case is folded into \<open>NaN\<close>.
\<close>

fun tf_div :: "tfloat \<Rightarrow> tfloat \<Rightarrow> tfloat" where
  "tf_div (Fin a) (Fin b) = (if b = 0 then NaN else Fin (a / b))"
| "tf_div _ _ = NaN"

fun tf_sqrt :: "tfloat \<Rightarrow> tfloat" where
  "tf_sqrt (Fin a) = (if a < 0 then NaN else Fin (sqrt a))"
| "tf_sqrt NaN = NaN"

text \<open>\<open>torch.mean\<close> of a one-dimensional tensor: the sum over the number of elements.\<close>

definition torch_mean :: "real list \<Rightarrow> tfloat" where
  "torch_mean xs = tf_div (Fin (sum_list xs)) (Fin (real (length xs)))"

text \<open>
  \<open>torch.std\<close> with its default arguments: the sample standard deviation with Bessel's
  correction, the square root of the sum of squared deviations over \<open>N - 1\<close>. For a
  tensor of one element that is \<open>sqrt (0 / 0)\<close>.
\<close>

definition torch_std :: "real list \<Rightarrow> tfloat" where
  "torch_std xs =
     (case torch_mean xs of
        NaN \<Rightarrow> NaN
      | Fin m \<Rightarrow>
          tf_sqrt (tf_div (Fin (sum_list (map (\<lambda>x. (x - m)\<^sup>2) xs)))
                          (Fin (real (length xs) - 1))))"

section \<open>The trajectory batch\<close>

text \<open>
  The dictionary returned by the collector, with its four keys. The three tensors are
  episode-major: the outer list ranges over the parallel environments, the inner one
  over the recorded timesteps.
\<close>

record trajectories =
  traj_all_states :: "real list list list"
  traj_all_log_probs :: "real list list"
  traj_all_actions :: "nat list list"
  traj_normalized_rewards :: "real list"

section \<open>The advantage estimator\<close>

definition calc_advantages_with_grpo :: "trajectories \<Rightarrow> tfloat list" where
  "calc_advantages_with_grpo trajectories =
     (let rewards = traj_normalized_rewards trajectories;
          mean_reward = torch_mean rewards;
          std_reward = tf_add (torch_std rewards) (Fin (1 / 100000000));
          advantages = map (\<lambda>r. tf_div (tf_sub (Fin r) mean_reward) std_reward) rewards
      in advantages)"

section \<open>The policy network\<close>

text \<open>
  \<open>PolicyNet\<close>: two linear layers, a rectified-linear activation between them and a
  softmax over the logits of each row. A linear layer stores its weight as one row per
  output unit.
\<close>

record policy_net =
  fc1_weight :: "real list list"
  fc1_bias :: "real list"
  fc2_weight :: "real list list"
  fc2_bias :: "real list"

definition linear :: "real list list \<Rightarrow> real list \<Rightarrow> real list \<Rightarrow> real list" where
  "linear weight bias x = map2 (\<lambda>row b. sum_list (map2 (*) row x) + b) weight bias"

definition relu :: "real list \<Rightarrow> real list" where
  "relu xs = map (max 0) xs"

definition softmax :: "real list \<Rightarrow> real list" where
  "softmax xs = map (\<lambda>x. exp x / sum_list (map exp xs)) xs"

definition forward :: "policy_net \<Rightarrow> real list list \<Rightarrow> real list list" where
  "forward net state =
     map (\<lambda>s. let x = relu (linear (fc1_weight net) (fc1_bias net) s);
                  logits = linear (fc2_weight net) (fc2_bias net) x
              in softmax logits) state"

text \<open>
  \<open>Categorical(probs).log_prob(actions)\<close>: the distribution normalises each row of
  \<open>probs\<close>, and the log-probability of an action is the logarithm of its entry.
\<close>

definition log_prob :: "real list list \<Rightarrow> nat list \<Rightarrow> real list" where
  "log_prob probs actions = map2 (\<lambda>row a. ln (row ! a / sum_list row)) probs actions"

section \<open>The world the program runs in\<close>

text \<open>
  The objects that the functions of the program mutate: the vectorized environment, the
  random number generator that \<open>sample\<close> draws from, the policy network and the
  optimizer. Every function below takes the world and returns the new one.
\<close>

record ('e, 'g, 'o) world =
  w_env :: 'e
  w_rng :: 'g
  w_policy :: policy_net
  w_optimizer :: 'o

text \<open>
  The vectorized environment is an external collaborator: \<open>reset\<close> returns one
  observation per environment, \<open>step\<close> takes one action per environment and returns the
  next observations, the rewards and the done flags (the fourth component, \<open>infos\<close>, is
  never read). Both change the environment's own state.
\<close>

record 'e vec_env =
  num_envs :: nat
  env_reset :: "'e \<Rightarrow> real list list \<times> 'e"
  env_step :: "'e \<Rightarrow> nat list \<Rightarrow> (real list list \<times> real list \<times> bool list) \<times> 'e"

text \<open>Sampling one action per row of probabilities consumes randomness.\<close>

type_synonym 'g sampler = "'g \<Rightarrow> real list list \<Rightarrow> nat list \<times> 'g"

text \<open>
  One optimizer step (\<open>zero_grad\<close>, \<open>backward\<close>, \<open>step\<close>): from the loss as a function of
  the parameters, the current parameters and the optimizer's state to the new
  parameters and state. Differentiation and Adam are the library's.
\<close>

type_synonym 'o optimizer =
  "(policy_net \<Rightarrow> tfloat) \<Rightarrow> policy_net \<Rightarrow> 'o \<Rightarrow> policy_net \<times> 'o"

datatype py_error = RuntimeError | ZeroDivisionError | UnboundLocalError | IndexError

section \<open>The trajectory collector\<close>

text \<open>The local variables of \<open>collect_trajectory_vectorized\<close>, and the world.\<close>

record ('e, 'g, 'o) collect_state =
  cs_world :: "('e, 'g, 'o) world"
  states :: "real list list"
  all_states :: "real list list list"
  all_actions :: "nat list list"
  all_log_probs :: "real list list"
  all_rewards :: "real list"
  all_dones :: "bool list"

text \<open>
  The first half of the loop body: the forward pass, the sampled actions with their
  log-probabilities, and the step of the environments.
\<close>

record ('e, 'g, 'o) interaction =
  i_actions :: "nat list"
  i_log_probs :: "real list"
  i_next_states :: "real list list"
  i_rewards :: "real list"
  i_dones :: "bool list"
  i_world :: "('e, 'g, 'o) world"

definition interact ::
  "'e vec_env \<Rightarrow> 'g sampler \<Rightarrow> ('e, 'g, 'o) collect_state \<Rightarrow> ('e, 'g, 'o) interaction" where
  "interact envs sample s =
     (let w = cs_world s;
          probs = forward (w_policy w) (states s);
          (actions, g) = sample (w_rng w) probs;
          log_probs = log_prob probs actions;
          ((next_states, rewards, dones), e) = env_step envs (w_env w) actions
      in \<lparr>i_actions = actions, i_log_probs = log_probs, i_next_states = next_states,
          i_rewards = rewards, i_dones = dones, i_world = w\<lparr>w_env := e, w_rng := g\<rparr>\<rparr>)"

text \<open>
  \<open>rewards[all_dones] = 0\<close>, where \<open>rewards\<close> is the array that the environment
  returned and \<open>all_dones\<close>, here \<open>flags\<close>, a tensor of booleans. A tensor of one element is taken as
  an integer index, 0 for \<open>False\<close> and 1 for \<open>True\<close>, and an index that is out of
  range raises; a tensor of any other size is taken as a boolean mask.
\<close>

definition zero_where_done :: "bool list \<Rightarrow> real list \<Rightarrow> py_error + real list" where
  "zero_where_done flags rewards =
     (if length flags = 1 then
        (let k = (if flags ! 0 then 1 else 0)
         in if k < length rewards then Inr (rewards[k := 0]) else Inl IndexError)
      else Inr (map2 (\<lambda>d x. if d then 0 else x) flags rewards))"

text \<open>
  \<open>-abs(next_states[:, 0])\<close>: the shaping penalty of every environment. Reading
  column 0 of observations that have no component raises.
\<close>

definition cart_penalty :: "real list list \<Rightarrow> py_error + real list" where
  "cart_penalty next_states =
     (if list_ex (\<lambda>ns. ns = []) next_states then Inl IndexError
      else Inr (map (\<lambda>ns. - \<bar>ns ! 0\<bar>) next_states))"

text \<open>
  The second half of the loop body, in the order of the source: the three appends, the
  sticky done flags, the zeroing of the rewards of the environments that are done, the
  shaping penalty, the accumulation.
\<close>

definition collect_step ::
  "'e vec_env \<Rightarrow> 'g sampler \<Rightarrow> ('e, 'g, 'o) collect_state \<Rightarrow>
   py_error + ('e, 'g, 'o) collect_state" where
  "collect_step envs sample s =
     (let r = interact envs sample s;
          all_dones' = map2 (\<or>) (all_dones s) (i_dones r)
      in case zero_where_done all_dones' (i_rewards r) of
           Inl e \<Rightarrow> Inl e
         | Inr rewards \<Rightarrow>
             (case cart_penalty (i_next_states r) of
                Inl e \<Rightarrow> Inl e
              | Inr penalty \<Rightarrow>
                  (let rewards = map2 (+) rewards penalty
                   in Inr \<lparr>cs_world = i_world r,
                           states = i_next_states r,
                           all_states = all_states s @ [states s],
                           all_actions = all_actions s @ [i_actions r],
                           all_log_probs = all_log_probs s @ [i_log_probs r],
                           all_rewards = map2 (+) (all_rewards s) rewards,
                           all_dones = all_dones'\<rparr>)))"

text \<open>\<open>for t in range(num_steps)\<close>, left early once every environment is done.\<close>

fun collect_loop ::
  "'e vec_env \<Rightarrow> 'g sampler \<Rightarrow> nat \<Rightarrow> ('e, 'g, 'o) collect_state \<Rightarrow>
   py_error + ('e, 'g, 'o) collect_state" where
  "collect_loop envs sample 0 s = Inr s"
| "collect_loop envs sample (Suc n) s =
     (case collect_step envs sample s of
        Inl e \<Rightarrow> Inl e
      | Inr s' \<Rightarrow>
          if list_all (\<lambda>d. d) (all_dones s') then Inr s' else collect_loop envs sample n s')"

text \<open>
  Stacking the recorded rows and swapping the first two dimensions: from one row per
  timestep, holding one entry per environment, to one row per environment.
\<close>

definition permute_10 :: "'a list list \<Rightarrow> 'a list list" where
  "permute_10 rows = map (\<lambda>i. map (\<lambda>row. row ! i) rows) [0..<length (hd rows)]"

definition collect_init ::
  "'e vec_env \<Rightarrow> ('e, 'g, 'o) world \<Rightarrow> ('e, 'g, 'o) collect_state" where
  "collect_init envs w =
     (let (states0, e) = env_reset envs (w_env w)
      in \<lparr>cs_world = w\<lparr>w_env := e\<rparr>,
          states = states0,
          all_states = [], all_actions = [], all_log_probs = [],
          all_rewards = replicate (num_envs envs) 0,
          all_dones = replicate (num_envs envs) False\<rparr>)"

text \<open>
  The list of recorded states becomes a tensor of three dimensions only when it holds a
  timestep and that timestep holds an environment: with no timestep it has one
  dimension, with timesteps of no environment it has two, and permuting three
  dimensions of such a tensor raises.
\<close>

definition collect_trajectory_vectorized ::
  "'e vec_env \<Rightarrow> 'g sampler \<Rightarrow> ('e, 'g, 'o) world \<Rightarrow> nat \<Rightarrow> real \<Rightarrow>
   py_error + ((trajectories \<times> real list) \<times> ('e, 'g, 'o) world)" where
  "collect_trajectory_vectorized envs sample w num_steps gamma =
     (case collect_loop envs sample num_steps (collect_init envs w) of
        Inl e \<Rightarrow> Inl e
      | Inr s \<Rightarrow>
          (let normalized_rewards = map (\<lambda>x. x / real num_steps) (all_rewards s)
           in if all_states s = [] \<or> hd (all_states s) = [] then Inl RuntimeError
              else
                let trajectories =
                      \<lparr>traj_all_states = permute_10 (all_states s),
                       traj_all_log_probs = permute_10 (all_log_probs s),
                       traj_all_actions = permute_10 (all_actions s),
                       traj_normalized_rewards = normalized_rewards\<rparr>;
                    episode_rewards = map (\<lambda>x. x * real num_steps) normalized_rewards
                in Inr ((trajectories, episode_rewards), cs_world s)))"

section \<open>The clipped policy update\<close>

text \<open>\<open>torch.clamp(x, lo, hi)\<close> is \<open>min (max x lo) hi\<close>.\<close>

definition clamp :: "real \<Rightarrow> real \<Rightarrow> real \<Rightarrow> real" where
  "clamp x lo hi = min (max x lo) hi"

text \<open>The loss of one timestep: minus the smaller of the two surrogates.\<close>

definition timestep_loss :: "real \<Rightarrow> real \<Rightarrow> real \<Rightarrow> real" where
  "timestep_loss eps ratio advantage =
     (let surr1 = ratio * advantage;
          surr2 = clamp ratio (1 - eps) (1 + eps) * advantage
      in - min surr1 surr2)"

text \<open>
  The loss of one episode: the mean over its timesteps. The advantage is one scalar of
  the episode; when it is NaN, so is every surrogate and the mean.
\<close>

definition trajectory_loss ::
  "real \<Rightarrow> policy_net \<Rightarrow> real list list \<Rightarrow> real list \<Rightarrow> nat list \<Rightarrow> tfloat \<Rightarrow> tfloat" where
  "trajectory_loss eps net states_i log_probs_i chosen_actions_i advantage =
     (let new_log_probs =
            map2 (\<lambda>row a. ln (row ! a)) (forward net states_i) chosen_actions_i;
          ratio = map2 (\<lambda>n l. exp (n - l)) new_log_probs log_probs_i
      in case advantage of
           NaN \<Rightarrow> NaN
         | Fin a \<Rightarrow> torch_mean (map (\<lambda>r. timestep_loss eps r a) ratio))"

text \<open>The loss of the batch, for a batch that is not empty.\<close>

definition batch_loss :: "real \<Rightarrow> trajectories \<Rightarrow> tfloat list \<Rightarrow> policy_net \<Rightarrow> tfloat" where
  "batch_loss eps trajectories advantages net =
     (let batch_size = length (traj_all_states trajectories);
          losses = map (\<lambda>i. trajectory_loss eps net
                               (traj_all_states trajectories ! i)
                               (traj_all_log_probs trajectories ! i)
                               (traj_all_actions trajectories ! i)
                               (advantages ! i)) [0..<batch_size];
          loss = foldl tf_add (Fin 0) losses
      in tf_div loss (Fin (real batch_size)))"

text \<open>
  The \<open>n_iterations\<close> updates. The second component of the state is the variable
  \<open>loss\<close>, unbound before the first iteration. With an empty batch \<open>loss\<close> is still the
  integer 0 when it is divided by the batch size 0.
\<close>

fun update_loop ::
  "'o optimizer \<Rightarrow> real \<Rightarrow> trajectories \<Rightarrow> tfloat list \<Rightarrow> nat \<Rightarrow>
   ('e, 'g, 'o) world \<times> tfloat option \<Rightarrow> py_error + (('e, 'g, 'o) world \<times> tfloat option)" where
  "update_loop optimizer eps trajectories advantages 0 st = Inr st"
| "update_loop optimizer eps trajectories advantages (Suc n) (w, l) =
     (if length (traj_all_states trajectories) = 0 then Inl ZeroDivisionError
      else
        let loss = batch_loss eps trajectories advantages;
            (net, opt) = optimizer loss (w_policy w) (w_optimizer w)
        in update_loop optimizer eps trajectories advantages n
             (w\<lparr>w_policy := net, w_optimizer := opt\<rparr>, Some (loss (w_policy w))))"

definition grpo_update ::
  "trajectories \<Rightarrow> ('e, 'g, 'o) world \<Rightarrow> 'o optimizer \<Rightarrow> nat \<Rightarrow> real \<Rightarrow>
   py_error + (tfloat \<times> ('e, 'g, 'o) world)" where
  "grpo_update trajectories w optimizer n_iterations eps =
     (let advantages = calc_advantages_with_grpo trajectories
      in case update_loop optimizer eps trajectories advantages n_iterations (w, None) of
           Inl e \<Rightarrow> Inl e
         | Inr (w', None) \<Rightarrow> Inl UnboundLocalError
         | Inr (w', Some loss) \<Rightarrow> Inr (loss, w'))"

section \<open>The outer training loop\<close>

text \<open>
  The state of the script's loop: the world, the list of average rewards, and the
  number of loop bodies executed so far (one more than the last value of \<open>i_episode\<close>).
\<close>

record ('e, 'g, 'o) train_state =
  ts_world :: "('e, 'g, 'o) world"
  return_list :: "real list"
  iterations :: nat

text \<open>
  One body of the loop; the boolean says whether the body ended in \<open>break\<close>. The
  collector is called with its default \<open>gamma\<close>, the update with its default number of
  iterations and tolerance.
\<close>

definition train_episode ::
  "'e vec_env \<Rightarrow> 'g sampler \<Rightarrow> 'o optimizer \<Rightarrow> nat \<Rightarrow> ('e, 'g, 'o) train_state \<Rightarrow>
   py_error + (('e, 'g, 'o) train_state \<times> bool)" where
  "train_episode envs sample optimizer max_steps st =
     (case collect_trajectory_vectorized envs sample (ts_world st) max_steps (99 / 100) of
        Inl e \<Rightarrow> Inl e
      | Inr ((trajectories, episode_rewards), w1) \<Rightarrow>
          (case grpo_update trajectories w1 optimizer 20 (2 / 10) of
             Inl e \<Rightarrow> Inl e
           | Inr (loss, w2) \<Rightarrow>
               if length episode_rewards = 0 then Inl ZeroDivisionError
               else
                 let avg_reward = sum_list episode_rewards / real (length episode_rewards)
                 in Inr (\<lparr>ts_world = w2,
                          return_list = return_list st @ [avg_reward],
                          iterations = Suc (iterations st)\<rparr>,
                         avg_reward > real max_steps - 5)))"

fun train_loop ::
  "'e vec_env \<Rightarrow> 'g sampler \<Rightarrow> 'o optimizer \<Rightarrow> nat \<Rightarrow> nat \<Rightarrow> ('e, 'g, 'o) train_state \<Rightarrow>
   py_error + ('e, 'g, 'o) train_state" where
  "train_loop envs sample optimizer max_steps 0 st = Inr st"
| "train_loop envs sample optimizer max_steps (Suc n) st =
     (case train_episode envs sample optimizer max_steps st of
        Inl e \<Rightarrow> Inl e
      | Inr (st', stop) \<Rightarrow>
          if stop then Inr st' else train_loop envs sample optimizer max_steps n st')"

text \<open>The script: \<open>max_steps = 500\<close>, \<open>episode_num = 100\<close>, an empty \<open>return_list\<close>.\<close>

definition max_steps :: nat where
  "max_steps = 500"

definition episode_num :: nat where
  "episode_num = 100"

definition training ::
  "'e vec_env \<Rightarrow> 'g sampler \<Rightarrow> 'o optimizer \<Rightarrow> ('e, 'g, 'o) world \<Rightarrow>
   py_error + ('e, 'g, 'o) train_state" where
  "training envs sample optimizer w =
     train_loop envs sample optimizer max_steps episode_num
       \<lparr>ts_world = w, return_list = [], iterations = 0\<rparr>"

section \<open>Well-formed collaborators and the quantities of the properties\<close>

text \<open>
  A well-formed vectorized environment returns one observation, one reward and one done
  flag per environment, whenever it is given one action per environment.
\<close>

definition env_ok :: "'e vec_env \<Rightarrow> bool" where
  "env_ok envs \<longleftrightarrow>
     (\<forall>e. length (fst (env_reset envs e)) = num_envs envs) \<and>
     (\<forall>e a. length a = num_envs envs \<longrightarrow>
        (case fst (env_step envs e a) of
           (next_states, rewards, dones) \<Rightarrow>
             length next_states = num_envs envs \<and>
             length rewards = num_envs envs \<and>
             length dones = num_envs envs))"

text \<open>A well-formed sampler draws one action per row of probabilities.\<close>

definition sampler_ok :: "'g sampler \<Rightarrow> bool" where
  "sampler_ok sample \<longleftrightarrow> (\<forall>g probs. length (fst (sample g probs)) = length probs)"

text \<open>Every observation that a step returns has a first component, the cart position.\<close>

definition obs_ok :: "'e vec_env \<Rightarrow> bool" where
  "obs_ok envs \<longleftrightarrow>
     (\<forall>e a. length a = num_envs envs \<longrightarrow>
        (\<forall>ns \<in> set (fst (fst (env_step envs e a))). ns \<noteq> []))"

text \<open>
  The policy network fits the environment and the sampler fits the network: every
  observation has a cart position and the width that the first layer takes, the layers
  fit each other, there is at least one action, and the sampler chooses among the
  actions that it is given probabilities for. A forward pass, a distribution or a step
  of the environment outside of this raises in the libraries; the model does not follow
  such a run, and what is said to return is said under this condition.
\<close>

definition fits :: "'e vec_env \<Rightarrow> 'g sampler \<Rightarrow> policy_net \<Rightarrow> bool" where
  "fits envs sample net \<longleftrightarrow>
     (\<forall>e. \<forall>ob \<in> set (fst (env_reset envs e)).
        ob \<noteq> [] \<and> (\<forall>row \<in> set (fc1_weight net). length row = length ob)) \<and>
     (\<forall>e a. length a = num_envs envs \<longrightarrow>
        (\<forall>ob \<in> set (fst (fst (env_step envs e a))).
           ob \<noteq> [] \<and> (\<forall>row \<in> set (fc1_weight net). length row = length ob))) \<and>
     length (fc1_bias net) = length (fc1_weight net) \<and>
     (\<forall>row \<in> set (fc2_weight net). length row = length (fc1_weight net)) \<and>
     length (fc2_bias net) = length (fc2_weight net) \<and>
     fc2_weight net \<noteq> [] \<and>
     (\<forall>g probs. \<forall>i < length probs.
        probs ! i \<noteq> [] \<longrightarrow> fst (sample g probs) ! i < length (probs ! i))"

text \<open>An optimizer step keeps the shape of the network.\<close>

definition keeps_fit :: "'e vec_env \<Rightarrow> 'g sampler \<Rightarrow> 'o optimizer \<Rightarrow> bool" where
  "keeps_fit envs sample optimizer \<longleftrightarrow>
     (\<forall>loss net opt. fits envs sample net \<longrightarrow> fits envs sample (fst (optimizer loss net opt)))"

text \<open>The per-environment vectors of the loop have one entry per environment.\<close>

definition shape_ok :: "'e vec_env \<Rightarrow> ('e, 'g, 'o) collect_state \<Rightarrow> bool" where
  "shape_ok envs s \<longleftrightarrow>
     length (states s) = num_envs envs \<and>
     length (all_rewards s) = num_envs envs \<and>
     length (all_dones s) = num_envs envs"

text \<open>
  The loop bodies run one after the other from \<open>s\<close>, \<open>k\<close> of them, with no early exit.
\<close>

fun collect_steps ::
  "'e vec_env \<Rightarrow> 'g sampler \<Rightarrow> nat \<Rightarrow> ('e, 'g, 'o) collect_state \<Rightarrow>
   py_error + ('e, 'g, 'o) collect_state" where
  "collect_steps envs sample 0 s = Inr s"
| "collect_steps envs sample (Suc k) s =
     (case collect_step envs sample s of
        Inl e \<Rightarrow> Inl e
      | Inr s' \<Rightarrow> collect_steps envs sample k s')"

text \<open>Every environment is done after the step of index \<open>k\<close>, counted from \<open>s\<close>.\<close>

definition all_done_after ::
  "'e vec_env \<Rightarrow> 'g sampler \<Rightarrow> ('e, 'g, 'o) collect_state \<Rightarrow> nat \<Rightarrow> bool" where
  "all_done_after envs sample s k =
     (case collect_steps envs sample (Suc k) s of
        Inl e \<Rightarrow> False
      | Inr s' \<Rightarrow> list_all (\<lambda>d. d) (all_dones s'))"

text \<open>The first step index, below \<open>T\<close>, at which every environment is done.\<close>

definition first_all_done ::
  "'e vec_env \<Rightarrow> 'g sampler \<Rightarrow> nat \<Rightarrow> ('e, 'g, 'o) collect_state \<Rightarrow> nat option" where
  "first_all_done envs sample T s = find (all_done_after envs sample s) [0..<T]"

text \<open>
  The number of timesteps to be recorded: \<open>T\<close>, or one more than the first step index
  at which every environment is done.
\<close>

definition recorded_steps ::
  "'e vec_env \<Rightarrow> 'g sampler \<Rightarrow> nat \<Rightarrow> ('e, 'g, 'o) collect_state \<Rightarrow> nat" where
  "recorded_steps envs sample T s =
     (case first_all_done envs sample T s of None \<Rightarrow> T | Some k \<Rightarrow> min T (1 + k))"

text \<open>
  The shaped reward of environment \<open>i\<close> at the step taken from \<open>s\<close>: the raw reward,
  or 0 when the environment is done by then, minus the absolute cart position of the
  next observation. In a batch of one environment the raw reward is lost at every step
  that does not raise (see \<open>zero_where_done\<close>).
\<close>

definition shaped_reward ::
  "'e vec_env \<Rightarrow> 'g sampler \<Rightarrow> ('e, 'g, 'o) collect_state \<Rightarrow> nat \<Rightarrow> real" where
  "shaped_reward envs sample s i =
     (let r = interact envs sample s
      in (if length (all_dones s) = 1 \<or> all_dones s ! i \<or> i_dones r ! i then 0
          else i_rewards r ! i)
         - \<bar>i_next_states r ! i ! 0\<bar>)"

text \<open>The shaped reward of environment \<open>i\<close> at the step of index \<open>k\<close>, counted from \<open>s\<close>.\<close>

definition shaped_reward_at ::
  "'e vec_env \<Rightarrow> 'g sampler \<Rightarrow> ('e, 'g, 'o) collect_state \<Rightarrow> nat \<Rightarrow> nat \<Rightarrow> real" where
  "shaped_reward_at envs sample s k i =
     (case collect_steps envs sample k s of
        Inl e \<Rightarrow> 0
      | Inr s' \<Rightarrow> shaped_reward envs sample s' i)"

text \<open>Every recorded row has one entry per environment.\<close>

definition rows_ok :: "'e vec_env \<Rightarrow> ('e, 'g, 'o) collect_state \<Rightarrow> bool" where
  "rows_ok envs s \<longleftrightarrow>
     (\<forall>row \<in> set (all_states s). length row = num_envs envs) \<and>
     (\<forall>row \<in> set (all_actions s). length row = num_envs envs) \<and>
     (\<forall>row \<in> set (all_log_probs s). length row = num_envs envs)"

text \<open>
  The mean and the sample standard deviation (with Bessel's correction) of a batch of at
  least two rewards, as real numbers.
\<close>

definition batch_mean :: "real list \<Rightarrow> real" where
  "batch_mean xs = sum_list xs / real (length xs)"

definition batch_std :: "real list \<Rightarrow> real" where
  "batch_std xs =
     sqrt (sum_list (map (\<lambda>x. (x - batch_mean xs)\<^sup>2) xs) / (real (length xs) - 1))"

text \<open>The parameters and the optimizer state after \<open>n\<close> optimizer steps on one loss.\<close>

definition optimizer_steps ::
  "'o optimizer \<Rightarrow> (policy_net \<Rightarrow> tfloat) \<Rightarrow> nat \<Rightarrow> policy_net \<times> 'o \<Rightarrow> policy_net \<times> 'o" where
  "optimizer_steps optimizer loss n = (\<lambda>(net, opt). optimizer loss net opt) ^^ n"

text \<open>
  The mean of the episode rewards that the collector returns when it is run in the
  world \<open>w\<close> for at most \<open>M\<close> steps, and the world after one iteration of the
  training loop: the collection, then the update.
\<close>

definition mean_episode_reward ::
  "'e vec_env \<Rightarrow> 'g sampler \<Rightarrow> nat \<Rightarrow> ('e, 'g, 'o) world \<Rightarrow> real" where
  "mean_episode_reward envs sample M w =
     (case collect_trajectory_vectorized envs sample w M (99 / 100) of
        Inl e \<Rightarrow> 0
      | Inr ((trajectories, episode_rewards), w1) \<Rightarrow>
          sum_list episode_rewards / real (length episode_rewards))"

definition world_after_iteration ::
  "'e vec_env \<Rightarrow> 'g sampler \<Rightarrow> 'o optimizer \<Rightarrow> nat \<Rightarrow> ('e, 'g, 'o) world \<Rightarrow>
   ('e, 'g, 'o) world" where
  "world_after_iteration envs sample optimizer M w =
     (case collect_trajectory_vectorized envs sample w M (99 / 100) of
        Inl e \<Rightarrow> w
      | Inr ((trajectories, episode_rewards), w1) \<Rightarrow>
          (case grpo_update trajectories w1 optimizer 20 (2 / 10) of
             Inl e \<Rightarrow> w1
           | Inr (loss, w2) \<Rightarrow> w2))"

section \<open>A deterministic stub world\<close>

text \<open>
  Two environments whose state counts the steps since the reset. The first keeps its
  cart at position 1/2 and is done from its second step on; the second keeps its cart
  at the centre and is done at every step. Every raw reward is 1000.
\<close>

definition stub_envs :: "nat vec_env" where
  "stub_envs =
     \<lparr>num_envs = 2,
      env_reset = (\<lambda>e. ([[1 / 2, 0, 0, 0], [0, 0, 0, 0]], 0)),
      env_step = (\<lambda>e a. (([[1 / 2, 0, 0, 0], [0, 0, 0, 0]], [1000, 1000], [1 \<le> e, True]),
                          Suc e))\<rparr>"

text \<open>A sampler that always chooses action 0, and an optimizer that changes nothing.\<close>

definition stub_sample :: "unit sampler" where
  "stub_sample g probs = (map (\<lambda>row. 0) probs, g)"

definition stub_optimizer :: "'o optimizer" where
  "stub_optimizer loss net opt = (net, opt)"

text \<open>A policy with one hidden unit and two actions of probability 1/2 each.\<close>

definition stub_policy :: policy_net where
  "stub_policy =
     \<lparr>fc1_weight = [[0, 0, 0, 0]], fc1_bias = [0],
      fc2_weight = [[0], [0]], fc2_bias = [0, 0]\<rparr>"

definition stub_world :: "(nat, unit, unit) world" where
  "stub_world = \<lparr>w_env = 0, w_rng = (), w_policy = stub_policy, w_optimizer = ()\<rparr>"

text \<open>
  The states of the collector's loop in the stub world: at the start and after one, two
  and three steps, and the batch that the collector returns.
\<close>

definition stub_s0 :: "(nat, unit, unit) collect_state" where
  "stub_s0 =
     \<lparr>cs_world = stub_world,
      states = [[1 / 2, 0, 0, 0], [0, 0, 0, 0]],
      all_states = [], all_actions = [], all_log_probs = [],
      all_rewards = [0, 0], all_dones = [False, False]\<rparr>"

definition stub_s1 :: "(nat, unit, unit) collect_state" where
  "stub_s1 =
     \<lparr>cs_world = stub_world\<lparr>w_env := 1\<rparr>,
      states = [[1 / 2, 0, 0, 0], [0, 0, 0, 0]],
      all_states = [[[1 / 2, 0, 0, 0], [0, 0, 0, 0]]],
      all_actions = [[0, 0]],
      all_log_probs = [[ln (1 / 2), ln (1 / 2)]],
      all_rewards = [1999 / 2, 0], all_dones = [False, True]\<rparr>"

definition stub_s2 :: "(nat, unit, unit) collect_state" where
  "stub_s2 =
     \<lparr>cs_world = stub_world\<lparr>w_env := 2\<rparr>,
      states = [[1 / 2, 0, 0, 0], [0, 0, 0, 0]],
      all_states = [[[1 / 2, 0, 0, 0], [0, 0, 0, 0]], [[1 / 2, 0, 0, 0], [0, 0, 0, 0]]],
      all_actions = [[0, 0], [0, 0]],
      all_log_probs = [[ln (1 / 2), ln (1 / 2)], [ln (1 / 2), ln (1 / 2)]],
      all_rewards = [999, 0], all_dones = [True, True]\<rparr>"

definition stub_s3 :: "(nat, unit, unit) collect_state" where
  "stub_s3 =
     \<lparr>cs_world = stub_world\<lparr>w_env := 3\<rparr>,
      states = [[1 / 2, 0, 0, 0], [0, 0, 0, 0]],
      all_states = [[[1 / 2, 0, 0, 0], [0, 0, 0, 0]], [[1 / 2, 0, 0, 0], [0, 0, 0, 0]],
                    [[1 / 2, 0, 0, 0], [0, 0, 0, 0]]],
      all_actions = [[0, 0], [0, 0], [0, 0]],
      all_log_probs = [[ln (1 / 2), ln (1 / 2)], [ln (1 / 2), ln (1 / 2)],
                       [ln (1 / 2), ln (1 / 2)]],
      all_rewards = [1997 / 2, 0], all_dones = [True, True]\<rparr>"

definition stub_trajectories :: trajectories where
  "stub_trajectories =
     \<lparr>traj_all_states = [[[1 / 2, 0, 0, 0], [1 / 2, 0, 0, 0]], [[0, 0, 0, 0], [0, 0, 0, 0]]],
      traj_all_log_probs = [[ln (1 / 2), ln (1 / 2)], [ln (1 / 2), ln (1 / 2)]],
      traj_all_actions = [[0, 0], [0, 0]],
      traj_normalized_rewards = [999 / 500, 0]\<rparr>"

text \<open>The state in which the training ends in the stub world.\<close>

definition stub_final :: "(nat, unit, unit) train_state" where
  "stub_final = \<lparr>ts_world = stub_world\<lparr>w_env := 2\<rparr>, return_list = [999 / 2], iterations = 1\<rparr>"

section \<open>Properties of the advantage estimator\<close>

lemma torch_mean_Fin:
  "xs \<noteq> [] \<Longrightarrow> torch_mean xs = Fin (sum_list xs / real (length xs))"
  by (simp add: torch_mean_def)

lemma torch_mean_Nil: "torch_mean [] = NaN"
  by (simp add: torch_mean_def)

lemma torch_std_single: "torch_std [r] = NaN"
  by (simp add: torch_std_def torch_mean_def)

lemma torch_std_Fin:
  assumes "2 \<le> length xs"
  shows "torch_std xs =
    Fin (sqrt (sum_list (map (\<lambda>x. (x - sum_list xs / real (length xs))\<^sup>2) xs)
               / (real (length xs) - 1)))"
proof -
  from assms have ne: "xs \<noteq> []" by auto
  let ?m = "sum_list xs / real (length xs)"
  have nonneg: "0 \<le> sum_list (map (\<lambda>x. (x - ?m)\<^sup>2) xs)"
    by (rule sum_list_nonneg) auto
  from assms have pos: "0 < real (length xs) - 1" by simp
  from nonneg pos
  have "\<not> sum_list (map (\<lambda>x. (x - ?m)\<^sup>2) xs) / (real (length xs) - 1) < 0"
    by (simp add: not_less)
  with pos ne show ?thesis
    by (simp add: torch_std_def torch_mean_Fin)
qed

text \<open>
  The divisor of the estimator is never zero: either it is NaN, or it is a standard
  deviation, which is not negative, plus the positive constant.
\<close>

lemma tf_sqrt_nonneg: "tf_sqrt x = Fin d \<Longrightarrow> 0 \<le> d"
  by (cases x) (auto split: if_splits)

lemma torch_std_nonneg: "torch_std xs = Fin d \<Longrightarrow> 0 \<le> d"
  by (auto simp: torch_std_def dest: tf_sqrt_nonneg split: tfloat.splits)

lemma std_reward_positive:
  assumes "tf_add (torch_std xs) (Fin (1 / 100000000)) = Fin s"
  shows "0 < s"
proof -
  from assms obtain d where d: "torch_std xs = Fin d" and s: "s = d + 1 / 100000000"
    by (cases "torch_std xs") auto
  from d have "0 \<le> d" by (rule torch_std_nonneg)
  with s show "0 < s" by simp
qed

text \<open>With at least two rewards every advantage is a number.\<close>

lemma calc_advantages_Fin:
  assumes "2 \<le> length (traj_normalized_rewards t)"
    and "i < length (traj_normalized_rewards t)"
  shows "calc_advantages_with_grpo t ! i =
           Fin ((traj_normalized_rewards t ! i - batch_mean (traj_normalized_rewards t))
                / (batch_std (traj_normalized_rewards t) + 1 / 100000000))"
proof -
  let ?xs = "traj_normalized_rewards t"
  from assms(1) have ne: "?xs \<noteq> []" by auto
  have sd: "torch_std ?xs = Fin (batch_std ?xs)"
    using torch_std_Fin [OF assms(1)] by (simp add: batch_std_def batch_mean_def)
  then have "tf_add (torch_std ?xs) (Fin (1 / 100000000))
               = Fin (batch_std ?xs + 1 / 100000000)"
    by simp
  from std_reward_positive [OF this] have "batch_std ?xs + 1 / 100000000 \<noteq> 0" by simp
  with assms(2) sd ne show ?thesis
    by (simp add: calc_advantages_with_grpo_def Let_def torch_mean_Fin batch_mean_def)
qed

lemma stub_std: "batch_mean [1, 3] = 2" "batch_std [1, 3] = sqrt 2"
  by (simp_all add: batch_std_def batch_mean_def power2_eq_square)

text \<open>
  Claim C1. For every reward vector of length N, the advantage estimator returns a
  vector of the same length N, and its i-th entry is the i-th reward minus the batch
  mean, divided by the batch standard deviation to which the constant 1e-8 has been
  added first. With N of at least 2 the mean and the standard deviation are numbers,
  and so is every entry.
\<close>

theorem calc_advantages_with_grpo_formula:
  "length (calc_advantages_with_grpo t) = length (traj_normalized_rewards t) \<and>
   (\<forall>i < length (traj_normalized_rewards t).
      calc_advantages_with_grpo t ! i =
        tf_div (tf_sub (Fin (traj_normalized_rewards t ! i))
                       (torch_mean (traj_normalized_rewards t)))
               (tf_add (torch_std (traj_normalized_rewards t)) (Fin (1 / 100000000))) \<and>
      (2 \<le> length (traj_normalized_rewards t) \<longrightarrow>
         calc_advantages_with_grpo t ! i =
           Fin ((traj_normalized_rewards t ! i - batch_mean (traj_normalized_rewards t))
                / (batch_std (traj_normalized_rewards t) + 1 / 100000000))))"
proof -
  have "length (calc_advantages_with_grpo t) = length (traj_normalized_rewards t)"
    by (simp add: calc_advantages_with_grpo_def Let_def)
  moreover have "calc_advantages_with_grpo t ! i =
      tf_div (tf_sub (Fin (traj_normalized_rewards t ! i))
                     (torch_mean (traj_normalized_rewards t)))
             (tf_add (torch_std (traj_normalized_rewards t)) (Fin (1 / 100000000)))"
    if "i < length (traj_normalized_rewards t)" for i
    using that by (simp add: calc_advantages_with_grpo_def Let_def)
  ultimately show ?thesis
    using calc_advantages_Fin [of t] by blast
qed

theorem calc_advantages_with_grpo_formula_witness:
  "length (calc_advantages_with_grpo
             \<lparr>traj_all_states = [], traj_all_log_probs = [], traj_all_actions = [],
              traj_normalized_rewards = [1, 3]\<rparr>) = 2 \<and>
   calc_advantages_with_grpo
     \<lparr>traj_all_states = [], traj_all_log_probs = [], traj_all_actions = [],
      traj_normalized_rewards = [1, 3]\<rparr> ! 1 =
   Fin ((3 - 2) / (sqrt 2 + 1 / 100000000))"
proof -
  let ?t = "\<lparr>traj_all_states = [], traj_all_log_probs = [], traj_all_actions = [],
             traj_normalized_rewards = [1, 3]\<rparr>"
  note f = calc_advantages_with_grpo_formula [of ?t]
  have n: "2 \<le> length (traj_normalized_rewards ?t)" by simp
  have i: "1 < length (traj_normalized_rewards ?t)" by simp
  from f have "length (calc_advantages_with_grpo ?t) = length (traj_normalized_rewards ?t)"
    by blast
  then have l: "length (calc_advantages_with_grpo ?t) = 2" by simp
  from f n i have "calc_advantages_with_grpo ?t ! 1 =
      Fin ((traj_normalized_rewards ?t ! 1 - batch_mean (traj_normalized_rewards ?t))
           / (batch_std (traj_normalized_rewards ?t) + 1 / 100000000))"
    by blast
  then have "calc_advantages_with_grpo ?t ! 1 = Fin ((3 - 2) / (sqrt 2 + 1 / 100000000))"
    by (simp add: stub_std)
  with l show ?thesis by blast
qed

text \<open>
  A batch of at least two equal rewards, by contrast, gets advantages that are exactly
  0: the standard deviation is 0, and the constant keeps the divisor away from 0.
\<close>

lemma equal_rewards_advantage_zero:
  assumes "2 \<le> length (traj_normalized_rewards t)"
    and "\<forall>x \<in> set (traj_normalized_rewards t). x = c"
    and "i < length (traj_normalized_rewards t)"
  shows "calc_advantages_with_grpo t ! i = Fin 0"
proof -
  let ?xs = "traj_normalized_rewards t"
  from assms(2) have "?xs = replicate (length ?xs) c"
    by (simp add: replicate_length_same)
  then have "sum_list ?xs = real (length ?xs) * c"
    by (metis sum_list_replicate)
  moreover from assms(1) have "?xs \<noteq> []" by auto
  ultimately have m: "batch_mean ?xs = c" by (simp add: batch_mean_def)
  from assms(2,3) have "?xs ! i = c" by simp
  with m calc_advantages_Fin [OF assms(1,3)] show ?thesis by simp
qed

text \<open>
  Claim C4. For a batch of exactly one episode the advantage is to be exactly 0. The
  estimator returns NaN there: the numerator is 0, but the standard deviation of one
  reward is NaN, and the constant that is added to it guards a zero, not a NaN. Two
  equal rewards do get the advantage 0.
\<close>

theorem single_episode_advantage_is_nan:
  "calc_advantages_with_grpo
     \<lparr>traj_all_states = [[[0, 0, 0, 0]]], traj_all_log_probs = [[ln (1 / 2)]],
      traj_all_actions = [[0]], traj_normalized_rewards = [1]\<rparr> = [NaN] \<and>
   calc_advantages_with_grpo
     \<lparr>traj_all_states = [[[0, 0, 0, 0]], [[0, 0, 0, 0]]],
      traj_all_log_probs = [[ln (1 / 2)], [ln (1 / 2)]],
      traj_all_actions = [[0], [0]], traj_normalized_rewards = [1, 1]\<rparr> = [Fin 0, Fin 0]"
  by (simp add: calc_advantages_with_grpo_def Let_def torch_std_def torch_mean_def)

section \<open>Saturation of the clipped loss\<close>

lemma clamp_above: "hi < x \<Longrightarrow> clamp x lo hi = hi"
  by (simp add: clamp_def)

lemma clamp_below: "lo \<le> hi \<Longrightarrow> x < lo \<Longrightarrow> clamp x lo hi = lo"
  by (simp add: clamp_def)

lemma upper_sat:
  assumes out: "1 + eps < ratio"
    and smaller: "clamp ratio (1 - eps) (1 + eps) * advantage \<le> ratio * advantage"
    and further: "ratio \<le> ratio'"
  shows "timestep_loss eps ratio' advantage = timestep_loss eps ratio advantage"
proof -
  from out have c: "clamp ratio (1 - eps) (1 + eps) = 1 + eps" by (rule clamp_above)
  from out further have "1 + eps < ratio'" by simp
  then have c': "clamp ratio' (1 - eps) (1 + eps) = 1 + eps" by (rule clamp_above)
  from smaller c have "0 \<le> (ratio - (1 + eps)) * advantage" by (simp add: algebra_simps)
  with out have adv: "0 \<le> advantage" by (simp add: zero_le_mult_iff)
  from further adv have "ratio * advantage \<le> ratio' * advantage" by (rule mult_right_mono)
  with smaller c have "(1 + eps) * advantage \<le> ratio' * advantage" by simp
  with smaller c c' show ?thesis by (simp add: timestep_loss_def Let_def min_def)
qed

lemma lower_sat:
  assumes eps: "0 \<le> eps" and out: "ratio < 1 - eps"
    and smaller: "clamp ratio (1 - eps) (1 + eps) * advantage \<le> ratio * advantage"
    and further: "ratio' \<le> ratio"
  shows "timestep_loss eps ratio' advantage = timestep_loss eps ratio advantage"
proof -
  from eps have le: "1 - eps \<le> 1 + eps" by simp
  from le out have c: "clamp ratio (1 - eps) (1 + eps) = 1 - eps" by (rule clamp_below)
  from out further have "ratio' < 1 - eps" by simp
  with le have c': "clamp ratio' (1 - eps) (1 + eps) = 1 - eps" by (rule clamp_below)
  from smaller c have "0 \<le> (ratio - (1 - eps)) * advantage" by (simp add: algebra_simps)
  with out have adv: "advantage \<le> 0" by (auto simp: zero_le_mult_iff)
  from further adv have "ratio * advantage \<le> ratio' * advantage" by (rule mult_right_mono_neg)
  with smaller c have "(1 - eps) * advantage \<le> ratio' * advantage" by simp
  with smaller c c' show ?thesis by (simp add: timestep_loss_def Let_def min_def)
qed

text \<open>
  Claim C5. For a single timestep and a clipping tolerance that is not negative: when
  the ratio is above 1 + eps, or below 1 - eps, and the clamped surrogate is the smaller
  of the two, moving the ratio further from the interval in the same direction leaves
  the loss of the timestep unchanged.
\<close>

theorem clipping_saturates:
  assumes "0 \<le> eps"
    and "clamp ratio (1 - eps) (1 + eps) * advantage \<le> ratio * advantage"
  shows "(1 + eps < ratio \<and> ratio \<le> ratio'
            \<longrightarrow> timestep_loss eps ratio' advantage = timestep_loss eps ratio advantage) \<and>
         (ratio < 1 - eps \<and> ratio' \<le> ratio
            \<longrightarrow> timestep_loss eps ratio' advantage = timestep_loss eps ratio advantage)"
  using assms upper_sat [of eps ratio advantage ratio'] lower_sat [of eps ratio advantage ratio']
  by blast

theorem clipping_saturates_witness:
  "timestep_loss (2 / 10) 3 1 = timestep_loss (2 / 10) 2 1 \<and>
   timestep_loss (2 / 10) (1 / 4) (- 1) = timestep_loss (2 / 10) (1 / 2) (- 1)"
proof -
  have "clamp 2 (1 - 2 / 10) (1 + 2 / 10) * 1 \<le> (2::real) * 1"
    by (simp add: clamp_def)
  from clipping_saturates [OF _ this, of 3]
  have a: "timestep_loss (2 / 10) 3 1 = timestep_loss (2 / 10) 2 1" by simp
  have "clamp (1 / 2) (1 - 2 / 10) (1 + 2 / 10) * (- 1) \<le> (1 / 2 :: real) * (- 1)"
    by (simp add: clamp_def)
  from clipping_saturates [OF _ this, of "1 / 4"]
  have b: "timestep_loss (2 / 10) (1 / 4) (- 1) = timestep_loss (2 / 10) (1 / 2) (- 1)" by simp
  from a b show ?thesis by simp
qed

section \<open>One step of the collector\<close>

lemma interact_policy:
  "w_policy (i_world (interact envs sample s)) = w_policy (cs_world s)"
  "w_optimizer (i_world (interact envs sample s)) = w_optimizer (cs_world s)"
  by (simp_all add: interact_def Let_def split_def)

text \<open>What a step that returns has done, whatever the environment.\<close>

lemma collect_step_Inr:
  assumes "collect_step envs sample s = Inr s'"
  shows "cs_world s' = i_world (interact envs sample s)"
    and "states s' = i_next_states (interact envs sample s)"
    and "all_states s' = all_states s @ [states s]"
    and "all_actions s' = all_actions s @ [i_actions (interact envs sample s)]"
    and "all_log_probs s' = all_log_probs s @ [i_log_probs (interact envs sample s)]"
    and "all_dones s' = map2 (\<or>) (all_dones s) (i_dones (interact envs sample s))"
  using assms
  by (auto simp: collect_step_def Let_def split: sum.splits)

lemma collect_step_policy:
  assumes "collect_step envs sample s = Inr s'"
  shows "w_policy (cs_world s') = w_policy (cs_world s)"
    and "w_optimizer (cs_world s') = w_optimizer (cs_world s)"
  by (simp_all add: collect_step_Inr(1) [OF assms] interact_policy)

lemma collect_loop_policy:
  assumes "collect_loop envs sample n s = Inr s'"
  shows "w_policy (cs_world s') = w_policy (cs_world s) \<and>
         w_optimizer (cs_world s') = w_optimizer (cs_world s)"
  using assms
proof (induction n arbitrary: s)
  case 0
  then show ?case by simp
next
  case (Suc n)
  from Suc.prems obtain s1 where s1: "collect_step envs sample s = Inr s1"
    by (auto split: sum.splits)
  note p = collect_step_policy [OF s1]
  show ?case
  proof (cases "list_all (\<lambda>d. d) (all_dones s1)")
    case True
    with Suc.prems s1 p show ?thesis by simp
  next
    case False
    with Suc.prems s1 have "collect_loop envs sample n s1 = Inr s'" by simp
    from Suc.IH [OF this] p show ?thesis by simp
  qed
qed

lemma collect_init_policy:
  "w_policy (cs_world (collect_init envs w)) = w_policy w"
  "w_optimizer (cs_world (collect_init envs w)) = w_optimizer w"
  by (simp_all add: collect_init_def split_def Let_def)

lemma interact_shapes:
  assumes "env_ok envs" "sampler_ok sample" "length (states s) = num_envs envs"
  shows "length (i_actions (interact envs sample s)) = num_envs envs"
    and "length (i_log_probs (interact envs sample s)) = num_envs envs"
    and "length (i_next_states (interact envs sample s)) = num_envs envs"
    and "length (i_rewards (interact envs sample s)) = num_envs envs"
    and "length (i_dones (interact envs sample s)) = num_envs envs"
proof -
  let ?w = "cs_world s"
  let ?probs = "forward (w_policy ?w) (states s)"
  let ?a = "fst (sample (w_rng ?w) ?probs)"
  have lp: "length ?probs = num_envs envs" using assms(3) by (simp add: forward_def)
  with assms(2) have la: "length ?a = num_envs envs" by (simp add: sampler_ok_def)
  with assms(1) have
    "case fst (env_step envs (w_env ?w) ?a) of
       (ns, r, d) \<Rightarrow> length ns = num_envs envs \<and> length r = num_envs envs \<and> length d = num_envs envs"
    by (simp add: env_ok_def)
  with la lp show "length (i_actions (interact envs sample s)) = num_envs envs"
    and "length (i_log_probs (interact envs sample s)) = num_envs envs"
    and "length (i_next_states (interact envs sample s)) = num_envs envs"
    and "length (i_rewards (interact envs sample s)) = num_envs envs"
    and "length (i_dones (interact envs sample s)) = num_envs envs"
    by (simp_all add: interact_def Let_def split_def log_prob_def)
qed

lemma interact_obs:
  assumes "env_ok envs" "sampler_ok sample" "obs_ok envs" "length (states s) = num_envs envs"
  shows "\<forall>ns \<in> set (i_next_states (interact envs sample s)). ns \<noteq> []"
proof -
  let ?w = "cs_world s"
  let ?probs = "forward (w_policy ?w) (states s)"
  let ?a = "fst (sample (w_rng ?w) ?probs)"
  have "length ?probs = num_envs envs" using assms(4) by (simp add: forward_def)
  with assms(2) have "length ?a = num_envs envs" by (simp add: sampler_ok_def)
  with assms(3) have "\<forall>ns \<in> set (fst (fst (env_step envs (w_env ?w) ?a))). ns \<noteq> []"
    by (simp add: obs_ok_def)
  then show ?thesis by (simp add: interact_def Let_def split_def)
qed

lemma cart_penalty_Inr:
  "cart_penalty next_states = Inr ps \<Longrightarrow> ps = map (\<lambda>ns. - \<bar>ns ! 0\<bar>) next_states"
  by (simp add: cart_penalty_def split: if_splits)

lemma cart_penalty_returns:
  "\<forall>ns \<in> set next_states. ns \<noteq> [] \<Longrightarrow> \<exists>ps. cart_penalty next_states = Inr ps"
  by (auto simp: cart_penalty_def list_ex_iff)

text \<open>The zeroing, entry by entry, when it returns.\<close>

lemma zero_where_done_nth:
  assumes "zero_where_done ds rs = Inr zs" and "length rs = length ds" and "i < length ds"
  shows "length zs = length ds"
    and "zs ! i = (if length ds = 1 \<or> ds ! i then 0 else rs ! i)"
proof -
  show "length zs = length ds"
    using assms(1,2) by (auto simp: zero_where_done_def Let_def split: if_splits)
  show "zs ! i = (if length ds = 1 \<or> ds ! i then 0 else rs ! i)"
  proof (cases "length ds = 1")
    case True
    with assms(3) have i: "i = 0" by simp
    from True assms(1,2) have "zs = rs[0 := 0]"
      by (auto simp: zero_where_done_def Let_def split: if_splits)
    with True assms(2) i show ?thesis by simp
  next
    case False
    with assms(1) have "zs = map2 (\<lambda>d x. if d then 0 else x) ds rs"
      by (simp add: zero_where_done_def)
    with False assms(2,3) show ?thesis by simp
  qed
qed

lemma zero_where_done_returns:
  "length ds \<noteq> 1 \<Longrightarrow> \<exists>zs. zero_where_done ds rs = Inr zs"
  by (simp add: zero_where_done_def)

lemma zero_where_done_one_done:
  "zero_where_done [True] [r] = Inl IndexError"
  by (simp add: zero_where_done_def)

lemma zero_where_done_one_running:
  "zero_where_done [False] [r] = Inr [0]"
  by (simp add: zero_where_done_def)

text \<open>A step that returns, with a well-formed environment and sampler.\<close>

lemma collect_step_ok:
  assumes "env_ok envs" "sampler_ok sample" "shape_ok envs s"
    and "collect_step envs sample s = Inr s'"
  shows "shape_ok envs s'"
    and "i < num_envs envs \<Longrightarrow>
           all_dones s' ! i = (all_dones s ! i \<or> i_dones (interact envs sample s) ! i)"
    and "i < num_envs envs \<Longrightarrow>
           all_rewards s' ! i = all_rewards s ! i + shaped_reward envs sample s i"
proof -
  let ?r = "interact envs sample s"
  let ?d = "map2 (\<or>) (all_dones s) (i_dones ?r)"
  from assms(3) have sh: "length (states s) = num_envs envs"
    "length (all_rewards s) = num_envs envs" "length (all_dones s) = num_envs envs"
    by (simp_all add: shape_ok_def)
  note shp = interact_shapes [OF assms(1,2) sh(1)]
  have ld: "length ?d = num_envs envs" using sh(3) shp(5) by simp
  from assms(4) obtain zs ps where
    z: "zero_where_done ?d (i_rewards ?r) = Inr zs"
    and p: "cart_penalty (i_next_states ?r) = Inr ps"
    and s': "s' = \<lparr>cs_world = i_world ?r, states = i_next_states ?r,
                   all_states = all_states s @ [states s],
                   all_actions = all_actions s @ [i_actions ?r],
                   all_log_probs = all_log_probs s @ [i_log_probs ?r],
                   all_rewards = map2 (+) (all_rewards s) (map2 (+) zs ps),
                   all_dones = ?d\<rparr>"
    by (auto simp: collect_step_def Let_def split: sum.splits)
  note ps = cart_penalty_Inr [OF p]
  have lp: "length ps = num_envs envs" using shp(3) by (simp add: ps)
  have lr: "length (i_rewards ?r) = length ?d" using ld shp(4) by simp
  have lz: "length zs = num_envs envs"
    using z lr ld by (auto simp: zero_where_done_def Let_def split: if_splits)
  show "shape_ok envs s'"
    using sh shp lz ld lp by (simp add: s' shape_ok_def)
  show "all_dones s' ! i = (all_dones s ! i \<or> i_dones ?r ! i)" if "i < num_envs envs"
    using that sh shp by (simp add: s')
  show "all_rewards s' ! i = all_rewards s ! i + shaped_reward envs sample s i"
    if i: "i < num_envs envs"
  proof -
    from i ld have "i < length ?d" by simp
    from zero_where_done_nth(2) [OF z lr this]
    have "zs ! i = (if length ?d = 1 \<or> ?d ! i then 0 else i_rewards ?r ! i)" .
    with i sh shp ld lz lp show ?thesis
      by (simp add: s' ps shaped_reward_def Let_def)
  qed
qed

lemma collect_step_returns:
  assumes "env_ok envs" "sampler_ok sample" "shape_ok envs s" and "num_envs envs \<noteq> 1"
    and "obs_ok envs"
  shows "\<exists>s'. collect_step envs sample s = Inr s'"
proof -
  let ?r = "interact envs sample s"
  from assms(3) have sh: "length (states s) = num_envs envs"
    "length (all_dones s) = num_envs envs"
    by (simp_all add: shape_ok_def)
  note shp = interact_shapes [OF assms(1,2) sh(1)]
  have "length (map2 (\<or>) (all_dones s) (i_dones ?r)) \<noteq> 1"
    using sh(2) shp(5) assms(4) by simp
  from zero_where_done_returns [OF this, of "i_rewards ?r"]
    cart_penalty_returns [OF interact_obs [OF assms(1,2,5) sh(1)]]
  show ?thesis by (auto simp: collect_step_def Let_def)
qed

text \<open>
  With one environment the step raises as soon as the environment is done, and loses
  the raw reward as long as it is not.
\<close>

lemma collect_step_one_env_done:
  assumes "env_ok envs" "sampler_ok sample" "shape_ok envs s" and "num_envs envs = 1"
    and "all_dones s ! 0 \<or> i_dones (interact envs sample s) ! 0"
  shows "collect_step envs sample s = Inl IndexError"
proof -
  let ?r = "interact envs sample s"
  from assms(3) have sh: "length (states s) = num_envs envs"
    "length (all_dones s) = num_envs envs"
    by (simp_all add: shape_ok_def)
  note shp = interact_shapes [OF assms(1,2) sh(1)]
  from sh(2) assms(4) obtain d where d: "all_dones s = [d]"
    by (cases "all_dones s") auto
  from shp(5) assms(4) obtain d' where d': "i_dones ?r = [d']"
    by (cases "i_dones ?r") auto
  from shp(4) assms(4) obtain x where x: "i_rewards ?r = [x]"
    by (cases "i_rewards ?r") auto
  from assms(5) d d' have "d \<or> d'" by simp
  then show ?thesis
    by (simp add: collect_step_def Let_def d d' x zero_where_done_def)
qed

lemma collect_step_one_env_running:
  assumes "env_ok envs" "sampler_ok sample" "shape_ok envs s" and "num_envs envs = 1"
    and "\<not> all_dones s ! 0" and "\<not> i_dones (interact envs sample s) ! 0"
    and "obs_ok envs"
  shows "\<exists>s'. collect_step envs sample s = Inr s' \<and>
              all_rewards s' ! 0
                = all_rewards s ! 0 + (0 - \<bar>i_next_states (interact envs sample s) ! 0 ! 0\<bar>)"
proof -
  let ?r = "interact envs sample s"
  from assms(3) have sh: "length (states s) = num_envs envs"
    "length (all_dones s) = num_envs envs" "length (all_rewards s) = num_envs envs"
    by (simp_all add: shape_ok_def)
  note shp = interact_shapes [OF assms(1,2) sh(1)]
  from sh(2) assms(4) obtain d where d: "all_dones s = [d]"
    by (cases "all_dones s") auto
  from sh(3) assms(4) obtain a where a: "all_rewards s = [a]"
    by (cases "all_rewards s") auto
  from shp(5) assms(4) obtain d' where d': "i_dones ?r = [d']"
    by (cases "i_dones ?r") auto
  from shp(4) assms(4) obtain x where x: "i_rewards ?r = [x]"
    by (cases "i_rewards ?r") auto
  from shp(3) assms(4) obtain ns where ns: "i_next_states ?r = [ns]"
    by (cases "i_next_states ?r") auto
  from interact_obs [OF assms(1,2,7) sh(1)] ns have "ns \<noteq> []" by simp
  moreover from assms(5,6) d d' have "\<not> d" "\<not> d'" by simp_all
  ultimately show ?thesis
    by (simp add: collect_step_def Let_def d d' x a ns zero_where_done_def cart_penalty_def)
qed

lemma fits_obs_ok: "fits envs sample net \<Longrightarrow> obs_ok envs"
  unfolding fits_def obs_ok_def by blast

section \<open>The loop of the collector\<close>

lemma find_map_option: "find P (map f xs) = map_option f (find (\<lambda>x. P (f x)) xs)"
  by (induction xs) simp_all

lemma find_upt_Suc:
  "find P [0..<Suc n] = (if P 0 then Some 0 else map_option Suc (find (\<lambda>k. P (Suc k)) [0..<n]))"
proof -
  have "[0..<Suc n] = 0 # map Suc [0..<n]"
    by (simp add: upt_conv_Cons map_Suc_upt del: upt_Suc)
  then show ?thesis by (simp add: find_map_option del: upt_Suc)
qed

lemma all_done_after_Inl:
  "collect_step envs sample s = Inl e \<Longrightarrow> \<not> all_done_after envs sample s k"
  by (simp add: all_done_after_def)

lemma all_done_after_Inr:
  assumes "collect_step envs sample s = Inr s'"
  shows "all_done_after envs sample s 0 = list_all (\<lambda>d. d) (all_dones s')"
    and "all_done_after envs sample s (Suc k) = all_done_after envs sample s' k"
  using assms by (simp_all add: all_done_after_def)

lemma first_all_done_Inl:
  "collect_step envs sample s = Inl e \<Longrightarrow> first_all_done envs sample n s = None"
  by (simp add: first_all_done_def find_None_iff all_done_after_Inl)

lemma first_all_done_Suc:
  assumes "collect_step envs sample s = Inr s'"
  shows "first_all_done envs sample (Suc n) s =
     (if list_all (\<lambda>d. d) (all_dones s') then Some 0
      else map_option Suc (first_all_done envs sample n s'))"
  unfolding first_all_done_def find_upt_Suc
  by (simp add: all_done_after_Inr [OF assms] del: upt_Suc)

lemma recorded_steps_0: "recorded_steps envs sample 0 s = 0"
  by (simp add: recorded_steps_def first_all_done_def)

lemma recorded_steps_Inl:
  "collect_step envs sample s = Inl e \<Longrightarrow> recorded_steps envs sample n s = n"
  by (simp add: recorded_steps_def first_all_done_Inl)

lemma recorded_steps_Suc:
  assumes "collect_step envs sample s = Inr s'"
  shows "recorded_steps envs sample (Suc n) s =
     (if list_all (\<lambda>d. d) (all_dones s') then 1
      else Suc (recorded_steps envs sample n s'))"
  by (simp add: recorded_steps_def first_all_done_Suc [OF assms] split: option.splits)

text \<open>The loop is the run of as many bodies as are to be recorded, errors included.\<close>

lemma collect_loop_steps:
  "collect_loop envs sample n s = collect_steps envs sample (recorded_steps envs sample n s) s"
proof (induction n arbitrary: s)
  case 0
  show ?case by (simp add: recorded_steps_0)
next
  case (Suc n)
  show ?case
  proof (cases "collect_step envs sample s")
    case (Inl e)
    then show ?thesis by (simp add: recorded_steps_Inl)
  next
    case (Inr s')
    then show ?thesis by (simp add: recorded_steps_Suc [OF Inr] Suc.IH)
  qed
qed

lemma recorded_steps_le: "recorded_steps envs sample n s \<le> n"
  by (simp add: recorded_steps_def split: option.splits)

lemma recorded_steps_pos: "0 < n \<Longrightarrow> 0 < recorded_steps envs sample n s"
  by (cases n) (simp_all add: recorded_steps_def split: option.splits)

lemma collect_steps_lengths:
  assumes "collect_steps envs sample k s = Inr s'"
  shows "length (all_states s') = length (all_states s) + k \<and>
         length (all_actions s') = length (all_actions s) + k \<and>
         length (all_log_probs s') = length (all_log_probs s) + k"
  using assms
proof (induction k arbitrary: s)
  case 0
  then show ?case by simp
next
  case (Suc k)
  from Suc.prems obtain s1 where s1: "collect_step envs sample s = Inr s1"
    and r: "collect_steps envs sample k s1 = Inr s'"
    by (auto split: sum.splits)
  from Suc.IH [OF r] collect_step_Inr(3-5) [OF s1] show ?case by simp
qed

lemma collect_step_rows:
  assumes "env_ok envs" "sampler_ok sample" "shape_ok envs s" "rows_ok envs s"
    and "collect_step envs sample s = Inr s'"
  shows "rows_ok envs s'"
  using assms(3,4) interact_shapes [OF assms(1,2), of s] collect_step_Inr(3-5) [OF assms(5)]
  by (auto simp: rows_ok_def shape_ok_def)

lemma collect_steps_ok:
  assumes "env_ok envs" "sampler_ok sample" "shape_ok envs s"
    and "collect_steps envs sample k s = Inr s'"
  shows "shape_ok envs s'"
    and "rows_ok envs s \<Longrightarrow> rows_ok envs s'"
    and "i < num_envs envs \<Longrightarrow> all_dones s ! i \<Longrightarrow> all_dones s' ! i"
    and "i < num_envs envs \<Longrightarrow>
           all_rewards s' ! i
             = all_rewards s ! i + (\<Sum>j<k. shaped_reward_at envs sample s j i)"
  using assms(3,4)
proof (induction k arbitrary: s)
  case 0
  {
    case 1 then show ?case by simp
  next
    case 2 then show ?case by simp
  next
    case 3 then show ?case by simp
  next
    case 4 then show ?case by simp
  }
next
  case (Suc k)
  {
    case 1
    from "1.prems" obtain s1 where s1: "collect_step envs sample s = Inr s1"
      and r: "collect_steps envs sample k s1 = Inr s'"
      by (auto split: sum.splits)
    from collect_step_ok(1) [OF assms(1,2) "1.prems"(1) s1] have "shape_ok envs s1" .
    from Suc.IH(1) [OF this r] show ?case .
  next
    case 2
    from "2.prems" obtain s1 where s1: "collect_step envs sample s = Inr s1"
      and r: "collect_steps envs sample k s1 = Inr s'"
      by (auto split: sum.splits)
    from collect_step_ok(1) [OF assms(1,2) "2.prems"(2) s1] have sh: "shape_ok envs s1" .
    from collect_step_rows [OF assms(1,2) "2.prems"(2,1) s1] have "rows_ok envs s1" .
    from Suc.IH(2) [OF this sh r] show ?case .
  next
    case 3
    from "3.prems" obtain s1 where s1: "collect_step envs sample s = Inr s1"
      and r: "collect_steps envs sample k s1 = Inr s'"
      by (auto split: sum.splits)
    from collect_step_ok(1) [OF assms(1,2) "3.prems"(3) s1] have sh: "shape_ok envs s1" .
    from collect_step_ok(2) [OF assms(1,2) "3.prems"(3) s1 "3.prems"(1)] "3.prems"(2)
    have "all_dones s1 ! i" by simp
    from Suc.IH(3) [OF "3.prems"(1) this sh r] show ?case .
  next
    case 4
    from "4.prems" obtain s1 where s1: "collect_step envs sample s = Inr s1"
      and r: "collect_steps envs sample k s1 = Inr s'"
      by (auto split: sum.splits)
    from collect_step_ok(1) [OF assms(1,2) "4.prems"(2) s1] have sh: "shape_ok envs s1" .
    have a: "shaped_reward_at envs sample s 0 i = shaped_reward envs sample s i"
      by (simp add: shaped_reward_at_def)
    have b: "shaped_reward_at envs sample s (Suc j) i = shaped_reward_at envs sample s1 j i"
      for j
      by (simp add: shaped_reward_at_def s1)
    from Suc.IH(4) [OF "4.prems"(1) sh r]
      collect_step_ok(3) [OF assms(1,2) "4.prems"(2) s1 "4.prems"(1)]
    show ?case
      by (simp add: sum.lessThan_Suc_shift a b del: sum.lessThan_Suc)
  }
qed

section \<open>What the collector returns\<close>

lemma collect_init_shape: "env_ok envs \<Longrightarrow> shape_ok envs (collect_init envs w)"
  by (simp add: shape_ok_def collect_init_def Let_def split_def env_ok_def)

lemma collect_init_rows: "rows_ok envs (collect_init envs w)"
  by (simp add: rows_ok_def collect_init_def Let_def split_def)

lemma collect_init_lengths:
  "all_states (collect_init envs w) = []"
  "all_actions (collect_init envs w) = []"
  "all_log_probs (collect_init envs w) = []"
  by (simp_all add: collect_init_def Let_def split_def)

lemma permute_10_shape:
  assumes "rows \<noteq> []" "\<forall>row \<in> set rows. length row = n"
  shows "length (permute_10 rows) = n"
    and "i < n \<Longrightarrow> length (permute_10 rows ! i) = length rows"
    and "i < n \<Longrightarrow> t < length rows \<Longrightarrow> permute_10 rows ! i ! t = rows ! t ! i"
proof -
  from assms have hd: "length (hd rows) = n" by (cases rows) auto
  then show "length (permute_10 rows) = n" by (simp add: permute_10_def)
  from hd show "i < n \<Longrightarrow> length (permute_10 rows ! i) = length rows"
    by (simp add: permute_10_def)
  from hd show "i < n \<Longrightarrow> t < length rows \<Longrightarrow> permute_10 rows ! i ! t = rows ! t ! i"
    by (simp add: permute_10_def)
qed

text \<open>
  With any number of environments but one, and observations that have a cart position,
  every step returns, and so does the loop.
\<close>

lemma collect_steps_returns:
  assumes "env_ok envs" "sampler_ok sample" "num_envs envs \<noteq> 1" "obs_ok envs"
    and "shape_ok envs s"
  shows "\<exists>s'. collect_steps envs sample k s = Inr s'"
  using assms(5)
proof (induction k arbitrary: s)
  case 0
  show ?case by simp
next
  case (Suc k)
  from collect_step_returns [OF assms(1,2) Suc.prems assms(3,4)] obtain s1
    where s1: "collect_step envs sample s = Inr s1" by blast
  from collect_step_ok(1) [OF assms(1,2) Suc.prems s1] have "shape_ok envs s1" .
  from Suc.IH [OF this] s1 show ?case by simp
qed

lemma collect_loop_returns:
  assumes "env_ok envs" "sampler_ok sample" "num_envs envs \<noteq> 1" "obs_ok envs"
    and "shape_ok envs s"
  shows "\<exists>s'. collect_loop envs sample n s = Inr s'"
  unfolding collect_loop_steps using assms by (rule collect_steps_returns)

text \<open>What the loop of the collector has recorded when it returns.\<close>

lemma loop_lengths:
  fixes envs :: "'e vec_env" and sample :: "'g sampler" and w :: "('e, 'g, 'o) world"
  assumes "collect_loop envs sample T (collect_init envs w) = Inr s"
  shows "length (all_states s) = recorded_steps envs sample T (collect_init envs w)"
    and "length (all_actions s) = recorded_steps envs sample T (collect_init envs w)"
    and "length (all_log_probs s) = recorded_steps envs sample T (collect_init envs w)"
  using collect_steps_lengths [OF assms [unfolded collect_loop_steps]]
  by (simp_all add: collect_init_lengths)

lemma loop_state_facts:
  fixes envs :: "'e vec_env" and sample :: "'g sampler" and w :: "('e, 'g, 'o) world"
  assumes "env_ok envs" and "sampler_ok sample"
    and "collect_loop envs sample T (collect_init envs w) = Inr s"
  shows "shape_ok envs s" and "rows_ok envs s"
proof -
  note r = assms(3) [unfolded collect_loop_steps]
  have sh0: "shape_ok envs (collect_init envs w)" using assms(1) by (rule collect_init_shape)
  show "shape_ok envs s" using assms(1,2) sh0 r by (rule collect_steps_ok(1))
  show "rows_ok envs s"
    using assms(1,2) sh0 r collect_init_rows by (rule collect_steps_ok(2))
qed

text \<open>What the collector returns, in terms of the final state of its loop.\<close>

lemma collector_result:
  assumes "collect_trajectory_vectorized envs sample w T gamma = Inr ((traj, ep), w')"
  shows "\<exists>s. collect_loop envs sample T (collect_init envs w) = Inr s \<and>
             all_states s \<noteq> [] \<and> hd (all_states s) \<noteq> [] \<and>
             traj_all_states traj = permute_10 (all_states s) \<and>
             traj_all_log_probs traj = permute_10 (all_log_probs s) \<and>
             traj_all_actions traj = permute_10 (all_actions s) \<and>
             traj_normalized_rewards traj = map (\<lambda>x. x / real T) (all_rewards s) \<and>
             ep = map (\<lambda>x. x * real T) (traj_normalized_rewards traj) \<and>
             w' = cs_world s"
  using assms
  by (auto simp: collect_trajectory_vectorized_def Let_def split: sum.splits if_splits)

lemma collector_returns:
  fixes envs :: "'e vec_env" and sample :: "'g sampler" and w :: "('e, 'g, 'o) world"
  assumes "env_ok envs" and "sampler_ok sample" and "2 \<le> num_envs envs"
    and "obs_ok envs" and "0 < T"
  shows "\<exists>traj ep w'. collect_trajectory_vectorized envs sample w T gamma = Inr ((traj, ep), w')"
proof -
  from assms(3) have n1: "num_envs envs \<noteq> 1" by simp
  have sh0: "shape_ok envs (collect_init envs w)" using assms(1) by (rule collect_init_shape)
  from collect_loop_returns [OF assms(1,2) n1 assms(4) sh0] obtain s
    where s: "collect_loop envs sample T (collect_init envs w) = Inr s" by blast
  from loop_lengths(1) [OF s]
    recorded_steps_pos [OF assms(5), where envs = envs and sample = sample
      and s = "collect_init envs w"]
  have ne: "all_states s \<noteq> []" by auto
  from loop_state_facts(2) [OF assms(1,2) s] ne assms(3)
  have "hd (all_states s) \<noteq> []" by (cases "all_states s") (auto simp: rows_ok_def)
  with s ne show ?thesis
    by (simp add: collect_trajectory_vectorized_def Let_def)
qed

lemma collector_dims:
  fixes envs :: "'e vec_env" and sample :: "'g sampler" and w :: "('e, 'g, 'o) world"
    and T :: nat
  assumes "env_ok envs" and "sampler_ok sample"
    and "collect_trajectory_vectorized envs sample w T gamma = Inr ((traj, ep), w')"
    and "collect_loop envs sample T (collect_init envs w) = Inr s"
  defines "n \<equiv> recorded_steps envs sample T (collect_init envs w)"
  shows "length (traj_all_states traj) = num_envs envs"
    and "length (traj_all_actions traj) = num_envs envs"
    and "length (traj_all_log_probs traj) = num_envs envs"
    and "i < num_envs envs \<Longrightarrow> length (traj_all_states traj ! i) = n"
    and "i < num_envs envs \<Longrightarrow> length (traj_all_actions traj ! i) = n"
    and "i < num_envs envs \<Longrightarrow> length (traj_all_log_probs traj ! i) = n"
    and "i < num_envs envs \<Longrightarrow> t < n \<Longrightarrow> traj_all_states traj ! i ! t = all_states s ! t ! i"
    and "i < num_envs envs \<Longrightarrow> t < n \<Longrightarrow> traj_all_actions traj ! i ! t = all_actions s ! t ! i"
    and "i < num_envs envs \<Longrightarrow> t < n \<Longrightarrow> traj_all_log_probs traj ! i ! t = all_log_probs s ! t ! i"
proof -
  from collector_result [OF assms(3)] assms(4)
  have res: "all_states s \<noteq> []"
    and eqs: "traj_all_states traj = permute_10 (all_states s)"
      "traj_all_actions traj = permute_10 (all_actions s)"
      "traj_all_log_probs traj = permute_10 (all_log_probs s)"
    by auto
  have len: "length (all_states s) = n" "length (all_actions s) = n" "length (all_log_probs s) = n"
    unfolding n_def by (rule loop_lengths [OF assms(4)])+
  from res len have ne: "all_states s \<noteq> []" "all_actions s \<noteq> []" "all_log_probs s \<noteq> []"
    by auto
  from loop_state_facts(2) [OF assms(1,2,4)] have rows:
    "\<forall>row \<in> set (all_states s). length row = num_envs envs"
    "\<forall>row \<in> set (all_actions s). length row = num_envs envs"
    "\<forall>row \<in> set (all_log_probs s). length row = num_envs envs"
    unfolding rows_ok_def by auto
  show "length (traj_all_states traj) = num_envs envs"
    unfolding eqs using ne(1) rows(1) by (rule permute_10_shape(1))
  show "length (traj_all_actions traj) = num_envs envs"
    unfolding eqs using ne(2) rows(2) by (rule permute_10_shape(1))
  show "length (traj_all_log_probs traj) = num_envs envs"
    unfolding eqs using ne(3) rows(3) by (rule permute_10_shape(1))
  show "i < num_envs envs \<Longrightarrow> length (traj_all_states traj ! i) = n"
    unfolding eqs using permute_10_shape(2) [OF ne(1) rows(1)] len by simp
  show "i < num_envs envs \<Longrightarrow> length (traj_all_actions traj ! i) = n"
    unfolding eqs using permute_10_shape(2) [OF ne(2) rows(2)] len by simp
  show "i < num_envs envs \<Longrightarrow> length (traj_all_log_probs traj ! i) = n"
    unfolding eqs using permute_10_shape(2) [OF ne(3) rows(3)] len by simp
  show "i < num_envs envs \<Longrightarrow> t < n \<Longrightarrow> traj_all_states traj ! i ! t = all_states s ! t ! i"
    unfolding eqs using permute_10_shape(3) [OF ne(1) rows(1)] len by simp
  show "i < num_envs envs \<Longrightarrow> t < n \<Longrightarrow> traj_all_actions traj ! i ! t = all_actions s ! t ! i"
    unfolding eqs using permute_10_shape(3) [OF ne(2) rows(2)] len by simp
  show "i < num_envs envs \<Longrightarrow> t < n \<Longrightarrow> traj_all_log_probs traj ! i ! t = all_log_probs s ! t ! i"
    unfolding eqs using permute_10_shape(3) [OF ne(3) rows(3)] len by simp
qed

lemma collector_rewards:
  fixes envs :: "'e vec_env" and sample :: "'g sampler" and w :: "('e, 'g, 'o) world"
    and T :: nat
  assumes "env_ok envs" and "sampler_ok sample"
    and "collect_trajectory_vectorized envs sample w T gamma = Inr ((traj, ep), w')"
  defines "s0 \<equiv> collect_init envs w"
  defines "n \<equiv> recorded_steps envs sample T s0"
  shows "length (traj_normalized_rewards traj) = num_envs envs"
    and "length ep = num_envs envs"
    and "i < num_envs envs \<Longrightarrow>
           traj_normalized_rewards traj ! i =
             (\<Sum>k<n. shaped_reward_at envs sample s0 k i) / real T"
    and "i < num_envs envs \<Longrightarrow> ep ! i = traj_normalized_rewards traj ! i * real T"
proof -
  from collector_result [OF assms(3)] obtain s where
    s: "collect_loop envs sample T (collect_init envs w) = Inr s"
    and nr: "traj_normalized_rewards traj = map (\<lambda>x. x / real T) (all_rewards s)"
    and ep: "ep = map (\<lambda>x. x * real T) (traj_normalized_rewards traj)"
    by blast
  have sh0: "shape_ok envs s0" using assms(1) by (simp add: s0_def collect_init_shape)
  from loop_state_facts(1) [OF assms(1,2) s]
  have lr: "length (all_rewards s) = num_envs envs" by (simp add: shape_ok_def)
  from lr show ln: "length (traj_normalized_rewards traj) = num_envs envs"
    by (simp add: nr)
  from ln show "length ep = num_envs envs" by (simp add: ep)
  have init0: "all_rewards s0 ! i = 0" if "i < num_envs envs"
    using that by (simp add: s0_def collect_init_def Let_def split_def)
  have r: "collect_steps envs sample n s0 = Inr s"
    using s by (simp add: collect_loop_steps n_def s0_def)
  show "traj_normalized_rewards traj ! i =
          (\<Sum>k<n. shaped_reward_at envs sample s0 k i) / real T"
    if i: "i < num_envs envs"
    using collect_steps_ok(4) [OF assms(1,2) sh0 r i] lr i init0 [OF i]
    by (simp add: nr)
  show "ep ! i = traj_normalized_rewards traj ! i * real T" if i: "i < num_envs envs"
    using ln i by (simp add: ep)
qed

lemma collector_world:
  assumes "collect_trajectory_vectorized envs sample w T gamma = Inr (out, w')"
  shows "w_policy w' = w_policy w" and "w_optimizer w' = w_optimizer w"
proof -
  obtain traj ep where out: "out = (traj, ep)" by (cases out)
  from collector_result [OF assms [unfolded out]] obtain s where
    s: "collect_loop envs sample T (collect_init envs w) = Inr s" and w': "w' = cs_world s"
    by blast
  from collect_loop_policy [OF s] w'
  show "w_policy w' = w_policy w" and "w_optimizer w' = w_optimizer w"
    by (simp_all add: collect_init_policy)
qed

section \<open>The collector in the stub world\<close>

lemma stub_envs_ok: "env_ok stub_envs"
  by (simp add: env_ok_def stub_envs_def)

lemma stub_sample_ok: "sampler_ok stub_sample"
  by (simp add: sampler_ok_def stub_sample_def)

lemma stub_obs_ok: "obs_ok stub_envs"
  by (simp add: obs_ok_def stub_envs_def)

lemma stub_fits: "fits stub_envs stub_sample stub_policy"
  by (simp add: fits_def stub_envs_def stub_sample_def stub_policy_def)

lemma stub_keeps_fit: "keeps_fit stub_envs stub_sample stub_optimizer"
  by (simp add: keeps_fit_def stub_optimizer_def)

lemma stub_forward:
  "forward stub_policy [[1 / 2, 0, 0, 0], [0, 0, 0, 0]] = [[1 / 2, 1 / 2], [1 / 2, 1 / 2]]"
  by (simp add: forward_def stub_policy_def linear_def relu_def softmax_def Let_def)

lemma stub_init: "collect_init stub_envs stub_world = stub_s0"
  by (simp add: stub_s0_def collect_init_def stub_envs_def stub_world_def numeral_2_eq_2)

lemma stub_step0: "collect_step stub_envs stub_sample stub_s0 = Inr stub_s1"
  by (simp add: stub_s0_def stub_s1_def collect_step_def interact_def stub_world_def
      stub_forward Let_def stub_sample_def log_prob_def stub_envs_def zero_where_done_def cart_penalty_def)

lemma stub_step1: "collect_step stub_envs stub_sample stub_s1 = Inr stub_s2"
  by (simp add: stub_s1_def stub_s2_def collect_step_def interact_def stub_world_def
      stub_forward Let_def stub_sample_def log_prob_def stub_envs_def zero_where_done_def cart_penalty_def)

lemma stub_step2: "collect_step stub_envs stub_sample stub_s2 = Inr stub_s3"
  by (simp add: stub_s2_def stub_s3_def collect_step_def interact_def stub_world_def
      stub_forward Let_def stub_sample_def log_prob_def stub_envs_def zero_where_done_def cart_penalty_def)

lemma stub_s2_shape: "shape_ok stub_envs stub_s2"
  by (simp add: shape_ok_def stub_envs_def stub_s2_def)

lemma stub_loop: "collect_loop stub_envs stub_sample (Suc (Suc n)) stub_s0 = Inr stub_s2"
  by (simp add: stub_step0 stub_step1) (simp add: stub_s1_def stub_s2_def)

lemma stub_collect:
  "collect_trajectory_vectorized stub_envs stub_sample stub_world 500 gamma =
     Inr ((stub_trajectories, [999, 0]), stub_world\<lparr>w_env := 2\<rparr>)"
proof -
  have "(500::nat) = Suc (Suc 498)" by simp
  then have "collect_loop stub_envs stub_sample 500 stub_s0 = Inr stub_s2"
    by (simp only: stub_loop)
  then show ?thesis
    by (simp add: collect_trajectory_vectorized_def stub_init Let_def)
       (simp add: stub_s2_def stub_trajectories_def permute_10_def numeral_2_eq_2)
qed

lemma stub_first_all_done: "first_all_done stub_envs stub_sample 500 stub_s0 = Some 1"
proof -
  have "(500::nat) = Suc (Suc 498)" by simp
  then show ?thesis
    by (simp only: first_all_done_Suc [OF stub_step0] first_all_done_Suc [OF stub_step1])
       (simp add: stub_s1_def stub_s2_def)
qed

lemma stub_recorded_steps: "recorded_steps stub_envs stub_sample 500 stub_s0 = 2"
  by (simp add: recorded_steps_def stub_first_all_done)

lemma stub_shaped_reward:
  "shaped_reward stub_envs stub_sample stub_s0 0 = 1999 / 2"
  "shaped_reward stub_envs stub_sample stub_s1 0 = - (1 / 2)"
  by (simp_all add: shaped_reward_def interact_def Let_def
      stub_s0_def stub_s1_def stub_world_def stub_forward stub_sample_def log_prob_def
      stub_envs_def)

lemma stub_shaped_reward_at:
  "shaped_reward_at stub_envs stub_sample stub_s0 0 0 = 1999 / 2"
  "shaped_reward_at stub_envs stub_sample stub_s0 (Suc 0) 0 = - (1 / 2)"
proof -
  show "shaped_reward_at stub_envs stub_sample stub_s0 0 0 = 1999 / 2"
    by (simp add: shaped_reward_at_def stub_shaped_reward)
  have "collect_steps stub_envs stub_sample (Suc 0) stub_s0 = Inr stub_s1"
    by (simp add: stub_step0)
  then show "shaped_reward_at stub_envs stub_sample stub_s0 (Suc 0) 0 = - (1 / 2)"
    by (simp add: shaped_reward_at_def stub_shaped_reward)
qed

section \<open>Properties of the collector\<close>

text \<open>
  Claim C2, as stated: an environment whose done flag is set accumulates a nonzero
  penalty at every later timestep. In the stub world the second environment is done
  after the first step, its cart is at the centre, and the second step adds nothing to
  its accumulated reward.
\<close>

theorem sticky_done_penalty_counterexample:
  "collect_step stub_envs stub_sample (collect_init stub_envs stub_world) = Inr stub_s1 \<and>
   all_dones stub_s1 ! 1 \<and>
   collect_step stub_envs stub_sample stub_s1 = Inr stub_s2 \<and>
   all_rewards stub_s2 ! 1 = all_rewards stub_s1 ! 1"
  by (simp add: stub_init stub_step0 stub_step1) (simp add: stub_s1_def stub_s2_def)

text \<open>
  Claim C2, amended: at a timestep taken with the done flag of environment i already
  set, the raw reward is forced to zero before the penalty is added, so the accumulated
  reward changes by exactly minus the absolute cart position of the next observation;
  that is never positive, and it is nonzero exactly when that position is nonzero. The
  flag stays set after any number of further steps, and at the end of the loop. With
  at least two environments, and a policy network that fits the environment and the
  current observations, the timestep is completed.
\<close>

theorem sticky_done_penalty:
  assumes "env_ok envs" and "sampler_ok sample" and "shape_ok envs s"
    and "i < num_envs envs" and "all_dones s ! i"
  shows "(\<forall>s'. collect_step envs sample s = Inr s' \<longrightarrow>
            all_rewards s' ! i = all_rewards s ! i + (0 + - \<bar>states s' ! i ! 0\<bar>) \<and>
            all_rewards s' ! i \<le> all_rewards s ! i \<and>
            (all_rewards s' ! i \<noteq> all_rewards s ! i \<longleftrightarrow> states s' ! i ! 0 \<noteq> 0) \<and>
            all_dones s' ! i) \<and>
         (\<forall>m s'. collect_steps envs sample m s = Inr s' \<longrightarrow> all_dones s' ! i) \<and>
         (\<forall>n s'. collect_loop envs sample n s = Inr s' \<longrightarrow> all_dones s' ! i) \<and>
         (2 \<le> num_envs envs \<and> fits envs sample (w_policy (cs_world s)) \<and>
          (\<forall>ob \<in> set (states s).
             \<forall>row \<in> set (fc1_weight (w_policy (cs_world s))). length row = length ob)
          \<longrightarrow> (\<exists>s'. collect_step envs sample s = Inr s'))"
proof (intro conjI allI impI)
  fix s' assume s': "collect_step envs sample s = Inr s'"
  from assms(3) have "length (all_dones s) = num_envs envs" by (simp add: shape_ok_def)
  with collect_step_ok(3) [OF assms(1-3) s' assms(4)] assms(5)
  show r: "all_rewards s' ! i = all_rewards s ! i + (0 + - \<bar>states s' ! i ! 0\<bar>)"
    by (simp add: shaped_reward_def Let_def collect_step_Inr(2) [OF s'])
  from r show "all_rewards s' ! i \<le> all_rewards s ! i" by simp
  from r show "(all_rewards s' ! i \<noteq> all_rewards s ! i) = (states s' ! i ! 0 \<noteq> 0)" by simp
  from collect_step_ok(2) [OF assms(1-3) s' assms(4)] assms(5) show "all_dones s' ! i"
    by simp
next
  fix m s' assume "collect_steps envs sample m s = Inr s'"
  from collect_steps_ok(3) [OF assms(1-3) this assms(4,5)] show "all_dones s' ! i" .
next
  fix n s' assume "collect_loop envs sample n s = Inr s'"
  then have "collect_steps envs sample (recorded_steps envs sample n s) s = Inr s'"
    by (simp add: collect_loop_steps)
  from collect_steps_ok(3) [OF assms(1-3) this assms(4,5)] show "all_dones s' ! i" .
next
  assume a: "2 \<le> num_envs envs \<and> fits envs sample (w_policy (cs_world s)) \<and>
          (\<forall>ob \<in> set (states s).
             \<forall>row \<in> set (fc1_weight (w_policy (cs_world s))). length row = length ob)"
  then have "num_envs envs \<noteq> 1" and "obs_ok envs" by (auto intro: fits_obs_ok)
  with assms(1-3) show "\<exists>s'. collect_step envs sample s = Inr s'"
    by (intro collect_step_returns) simp_all
qed

theorem sticky_done_penalty_witness:
  "collect_step stub_envs stub_sample stub_s2 = Inr stub_s3 \<and>
   all_dones stub_s2 ! 0 \<and>
   all_rewards stub_s3 ! 0 = all_rewards stub_s2 ! 0 + (0 + - \<bar>states stub_s3 ! 0 ! 0\<bar>) \<and>
   all_rewards stub_s3 ! 0 \<le> all_rewards stub_s2 ! 0 \<and>
   all_dones stub_s3 ! 0 \<and>
   all_rewards stub_s2 ! 0 = 999 \<and> all_rewards stub_s3 ! 0 = 999 - 1 / 2 \<and>
   2 \<le> num_envs stub_envs \<and> fits stub_envs stub_sample (w_policy (cs_world stub_s2))"
proof -
  have i: "0 < num_envs stub_envs" and m: "2 \<le> num_envs stub_envs"
    by (simp_all add: stub_envs_def)
  have f: "fits stub_envs stub_sample (w_policy (cs_world stub_s2))"
    using stub_fits by (simp add: stub_s2_def stub_world_def)
  have o: "\<forall>ob \<in> set (states stub_s2).
             \<forall>row \<in> set (fc1_weight (w_policy (cs_world stub_s2))). length row = length ob"
    by (simp add: stub_s2_def stub_world_def stub_policy_def)
  have d: "all_dones stub_s2 ! 0" by (simp add: stub_s2_def)
  have v: "all_rewards stub_s2 ! 0 = 999" "all_rewards stub_s3 ! 0 = 999 - 1 / 2"
    by (simp_all add: stub_s2_def stub_s3_def)
  from sticky_done_penalty [OF stub_envs_ok stub_sample_ok stub_s2_shape i d] stub_step2 d v m f o
  show ?thesis by blast
qed

text \<open>
  Claim C3. When the collector returns, with the configured maximum step count T and
  n recorded timesteps, n is at most T, and for every episode the normalized reward is
  the sum of its shaped rewards over the n recorded timesteps divided by T, not by n;
  the episode reward is the normalized reward multiplied by T. When all environments
  are done for the first time at a step index k with k + 1 below T, the loop stops
  there, and the sequences of every episode have k + 1 entries, fewer than T.
\<close>

theorem normalized_reward_divides_by_num_steps:
  assumes "env_ok envs" and "sampler_ok sample"
    and "collect_trajectory_vectorized envs sample w T gamma = Inr ((traj, ep), w')"
  shows "recorded_steps envs sample T (collect_init envs w) \<le> T \<and>
         (\<forall>i < num_envs envs.
            traj_normalized_rewards traj ! i =
              (\<Sum>k < recorded_steps envs sample T (collect_init envs w).
                  shaped_reward_at envs sample (collect_init envs w) k i) / real T \<and>
            ep ! i = traj_normalized_rewards traj ! i * real T \<and>
            length (traj_all_states traj ! i)
              = recorded_steps envs sample T (collect_init envs w)) \<and>
         (\<forall>k. first_all_done envs sample T (collect_init envs w) = Some k \<and> Suc k < T
            \<longrightarrow> recorded_steps envs sample T (collect_init envs w) = Suc k)"
proof -
  from collector_result [OF assms(3)] obtain s where
    s: "collect_loop envs sample T (collect_init envs w) = Inr s" by blast
  have "recorded_steps envs sample T (collect_init envs w) = Suc k"
    if "first_all_done envs sample T (collect_init envs w) = Some k" and "Suc k < T" for k
    using that by (simp add: recorded_steps_def)
  with recorded_steps_le [of envs sample T "collect_init envs w"]
    collector_rewards(3,4) [OF assms] collector_dims(4) [OF assms s]
  show ?thesis by blast
qed

theorem normalized_reward_divides_by_num_steps_witness:
  "recorded_steps stub_envs stub_sample 500 (collect_init stub_envs stub_world) \<le> 500 \<and>
   traj_normalized_rewards stub_trajectories ! 0 =
     (\<Sum>k < recorded_steps stub_envs stub_sample 500 (collect_init stub_envs stub_world).
         shaped_reward_at stub_envs stub_sample (collect_init stub_envs stub_world) k 0)
     / real 500 \<and>
   [999, 0] ! 0 = traj_normalized_rewards stub_trajectories ! 0 * real 500 \<and>
   length (traj_all_states stub_trajectories ! 0)
     = recorded_steps stub_envs stub_sample 500 (collect_init stub_envs stub_world) \<and>
   recorded_steps stub_envs stub_sample 500 (collect_init stub_envs stub_world) = 2 \<and>
   traj_normalized_rewards stub_trajectories ! 0 = 999 / 500 \<and>
   (\<Sum>k < 2. shaped_reward_at stub_envs stub_sample (collect_init stub_envs stub_world) k 0)
     = 999"
proof -
  have i: "0 < num_envs stub_envs" by (simp add: stub_envs_def)
  have n: "recorded_steps stub_envs stub_sample 500 (collect_init stub_envs stub_world) = 2"
    by (simp add: stub_init stub_recorded_steps)
  have r: "traj_normalized_rewards stub_trajectories ! 0 = 999 / 500"
    by (simp add: stub_trajectories_def)
  have v: "(\<Sum>k < 2. shaped_reward_at stub_envs stub_sample
                        (collect_init stub_envs stub_world) k 0) = 999"
    by (simp add: stub_init numeral_2_eq_2 stub_shaped_reward_at)
  from normalized_reward_divides_by_num_steps
    [OF stub_envs_ok stub_sample_ok stub_collect [of "99 / 100"]] i n r v
  show ?thesis by blast
qed

text \<open>
  Claim C6. Two runs of the collector that differ in the discount factor only return
  the same result: the same trajectories, episode rewards and world, or the same error.
\<close>

theorem gamma_is_never_used:
  "collect_trajectory_vectorized envs sample w num_steps gamma =
   collect_trajectory_vectorized envs sample w num_steps gamma'"
  by (simp add: collect_trajectory_vectorized_def)

text \<open>
  Claim C7. When the collector returns, each of the three output tensors has one row
  per environment, and the rows of one episode, its observations, its chosen actions
  and their log-probabilities, have the same length; entry t of the row of episode i
  is entry i of what was recorded at timestep t. Every step of the loop appends one
  element to each of the three recorded lists.
\<close>

theorem collected_sequences_have_equal_length:
  fixes envs :: "'e vec_env" and sample :: "'g sampler" and w :: "('e, 'g, 'o) world"
  assumes "env_ok envs" and "sampler_ok sample"
    and "collect_trajectory_vectorized envs sample w T gamma = Inr ((traj, ep), w')"
  shows "length (traj_all_states traj) = num_envs envs \<and>
         length (traj_all_actions traj) = num_envs envs \<and>
         length (traj_all_log_probs traj) = num_envs envs \<and>
         (\<forall>i < num_envs envs.
            length (traj_all_states traj ! i) = length (traj_all_actions traj ! i) \<and>
            length (traj_all_actions traj ! i) = length (traj_all_log_probs traj ! i)) \<and>
         (\<exists>s. collect_loop envs sample T (collect_init envs w) = Inr s \<and>
              (\<forall>i < num_envs envs. \<forall>t < length (traj_all_states traj ! i).
                 traj_all_states traj ! i ! t = all_states s ! t ! i \<and>
                 traj_all_actions traj ! i ! t = all_actions s ! t ! i \<and>
                 traj_all_log_probs traj ! i ! t = all_log_probs s ! t ! i)) \<and>
         (\<forall>(s :: ('e, 'g, 'o) collect_state) s'. collect_step envs sample s = Inr s' \<longrightarrow>
              length (all_states s') = Suc (length (all_states s)) \<and>
              length (all_actions s') = Suc (length (all_actions s)) \<and>
              length (all_log_probs s') = Suc (length (all_log_probs s)))"
proof -
  from collector_result [OF assms(3)] obtain s where
    s: "collect_loop envs sample T (collect_init envs w) = Inr s" by blast
  note d = collector_dims [OF assms s]
  have app: "length (all_states s') = Suc (length (all_states s)) \<and>
             length (all_actions s') = Suc (length (all_actions s)) \<and>
             length (all_log_probs s') = Suc (length (all_log_probs s))"
    if "collect_step envs sample s = Inr s'"
    for s s' :: "('e, 'g, 'o) collect_state"
    using collect_step_Inr(3-5) [OF that] by simp
  have ent: "\<forall>i < num_envs envs. \<forall>t < length (traj_all_states traj ! i).
                 traj_all_states traj ! i ! t = all_states s ! t ! i \<and>
                 traj_all_actions traj ! i ! t = all_actions s ! t ! i \<and>
                 traj_all_log_probs traj ! i ! t = all_log_probs s ! t ! i"
    using d(4,7,8,9) by simp
  have len: "\<forall>i < num_envs envs.
            length (traj_all_states traj ! i) = length (traj_all_actions traj ! i) \<and>
            length (traj_all_actions traj ! i) = length (traj_all_log_probs traj ! i)"
    using d(4,5,6) by simp
  from d(1,2,3) len s ent app show ?thesis by blast
qed

theorem collected_sequences_have_equal_length_witness:
  "length (traj_all_states stub_trajectories) = num_envs stub_envs \<and>
   length (traj_all_states stub_trajectories ! 1)
     = length (traj_all_actions stub_trajectories ! 1) \<and>
   length (traj_all_actions stub_trajectories ! 1)
     = length (traj_all_log_probs stub_trajectories ! 1) \<and>
   length (traj_all_log_probs stub_trajectories ! 1) = 2"
proof -
  have i: "1 < num_envs stub_envs" by (simp add: stub_envs_def)
  have n: "length (traj_all_log_probs stub_trajectories ! 1) = 2"
    by (simp add: stub_trajectories_def)
  from collected_sequences_have_equal_length
    [OF stub_envs_ok stub_sample_ok stub_collect [of "99 / 100"]] i n
  show ?thesis by blast
qed

text \<open>
  Claim C10. With a maximum step count T of at least 1, whenever the loop of the
  collector ends, the number of recorded timesteps is the minimum of T and one more
  than the first step index at which all environments are done (T when there is no
  such index below T); it is at least 1, and it is the length of the three recorded
  lists that are stacked. Whenever the collector returns, it is the length of the
  sequences of every episode. With at least two environments, whose observations have
  a cart position, the collector returns.
\<close>

theorem collector_records_at_least_one_step:
  assumes "env_ok envs" and "sampler_ok sample" and "1 \<le> T"
  shows "(\<forall>s. collect_loop envs sample T (collect_init envs w) = Inr s \<longrightarrow>
            (let n = (case first_all_done envs sample T (collect_init envs w) of
                        None \<Rightarrow> T
                      | Some k \<Rightarrow> min T (1 + k))
             in 1 \<le> n \<and>
                length (all_states s) = n \<and>
                length (all_actions s) = n \<and>
                length (all_log_probs s) = n \<and>
                (\<forall>traj ep w'.
                   collect_trajectory_vectorized envs sample w T gamma = Inr ((traj, ep), w')
                   \<longrightarrow> (\<forall>i < num_envs envs.
                          length (traj_all_states traj ! i) = n \<and>
                          length (traj_all_actions traj ! i) = n \<and>
                          length (traj_all_log_probs traj ! i) = n)))) \<and>
         (2 \<le> num_envs envs \<and> fits envs sample (w_policy w) \<longrightarrow>
            (\<exists>traj ep w'.
               collect_trajectory_vectorized envs sample w T gamma = Inr ((traj, ep), w')))"
proof (intro conjI allI impI)
  fix s assume s: "collect_loop envs sample T (collect_init envs w) = Inr s"
  from assms(3) have T: "0 < T" by simp
  have n: "(case first_all_done envs sample T (collect_init envs w) of
              None \<Rightarrow> T | Some k \<Rightarrow> min T (1 + k))
           = recorded_steps envs sample T (collect_init envs w)"
    by (simp add: recorded_steps_def)
  from T have p: "1 \<le> recorded_steps envs sample T (collect_init envs w)"
    using recorded_steps_pos [of T envs sample "collect_init envs w"] by simp
  have d: "\<forall>i < num_envs envs.
              length (traj_all_states traj ! i)
                = recorded_steps envs sample T (collect_init envs w) \<and>
              length (traj_all_actions traj ! i)
                = recorded_steps envs sample T (collect_init envs w) \<and>
              length (traj_all_log_probs traj ! i)
                = recorded_steps envs sample T (collect_init envs w)"
    if "collect_trajectory_vectorized envs sample w T gamma = Inr ((traj, ep), w')"
    for traj ep w'
    using collector_dims(4-6) [OF assms(1,2) that s] by simp
  from p loop_lengths [OF s] d
  show "let n = (case first_all_done envs sample T (collect_init envs w) of
                        None \<Rightarrow> T
                      | Some k \<Rightarrow> min T (1 + k))
             in 1 \<le> n \<and>
                length (all_states s) = n \<and>
                length (all_actions s) = n \<and>
                length (all_log_probs s) = n \<and>
                (\<forall>traj ep w'.
                   collect_trajectory_vectorized envs sample w T gamma = Inr ((traj, ep), w')
                   \<longrightarrow> (\<forall>i < num_envs envs.
                          length (traj_all_states traj ! i) = n \<and>
                          length (traj_all_actions traj ! i) = n \<and>
                          length (traj_all_log_probs traj ! i) = n))"
    unfolding n Let_def by blast
next
  assume "2 \<le> num_envs envs \<and> fits envs sample (w_policy w)"
  then have "2 \<le> num_envs envs" and "obs_ok envs" by (auto intro: fits_obs_ok)
  with assms show "\<exists>traj ep w'.
      collect_trajectory_vectorized envs sample w T gamma = Inr ((traj, ep), w')"
    by (intro collector_returns) simp_all
qed

theorem collector_records_at_least_one_step_witness:
  "collect_loop stub_envs stub_sample 500 (collect_init stub_envs stub_world) = Inr stub_s2 \<and>
   1 \<le> (case first_all_done stub_envs stub_sample 500 (collect_init stub_envs stub_world) of
           None \<Rightarrow> 500
         | Some k \<Rightarrow> min 500 (1 + k)) \<and>
   length (all_states stub_s2)
     = (case first_all_done stub_envs stub_sample 500 (collect_init stub_envs stub_world) of
          None \<Rightarrow> 500
        | Some k \<Rightarrow> min 500 (1 + k)) \<and>
   length (traj_all_states stub_trajectories ! 0)
     = (case first_all_done stub_envs stub_sample 500 (collect_init stub_envs stub_world) of
          None \<Rightarrow> 500
        | Some k \<Rightarrow> min 500 (1 + k)) \<and>
   first_all_done stub_envs stub_sample 500 (collect_init stub_envs stub_world) = Some 1 \<and>
   2 \<le> num_envs stub_envs \<and> fits stub_envs stub_sample (w_policy stub_world) \<and>
   (\<exists>traj ep w'.
      collect_trajectory_vectorized stub_envs stub_sample stub_world 500 (99 / 100)
        = Inr ((traj, ep), w'))"
proof -
  have f: "fits stub_envs stub_sample (w_policy stub_world)"
    using stub_fits by (simp add: stub_world_def)
  have i: "0 < num_envs stub_envs" and m: "2 \<le> num_envs stub_envs"
    by (simp_all add: stub_envs_def)
  have T: "(1::nat) \<le> 500" by simp
  have k: "first_all_done stub_envs stub_sample 500 (collect_init stub_envs stub_world) = Some 1"
    by (simp add: stub_init stub_first_all_done)
  have "(500::nat) = Suc (Suc 498)" by simp
  then have l: "collect_loop stub_envs stub_sample 500 (collect_init stub_envs stub_world)
                  = Inr stub_s2"
    by (simp only: stub_init stub_loop)
  from collector_records_at_least_one_step
    [OF stub_envs_ok stub_sample_ok T, of stub_world "99 / 100", unfolded Let_def]
    i m k l f stub_collect [of "99 / 100"]
  show ?thesis by blast
qed

section \<open>The update and the training loop\<close>

lemma update_loop_world:
  assumes "update_loop optimizer eps traj adv n (w, l) = Inr (w', l')"
  shows "(w_policy w', w_optimizer w')
           = optimizer_steps optimizer (batch_loss eps traj adv) n (w_policy w, w_optimizer w) \<and>
         w_env w' = w_env w \<and> w_rng w' = w_rng w"
  using assms
proof (induction n arbitrary: w l)
  case 0
  then show ?case by (simp add: optimizer_steps_def)
next
  case (Suc n)
  let ?p = "optimizer (batch_loss eps traj adv) (w_policy w) (w_optimizer w)"
  let ?w1 = "w\<lparr>w_policy := fst ?p, w_optimizer := snd ?p\<rparr>"
  from Suc.prems
  have "update_loop optimizer eps traj adv n
          (?w1, Some (batch_loss eps traj adv (w_policy w))) = Inr (w', l')"
    by (simp add: Let_def split_def split: if_splits)
  from Suc.IH [OF this] show ?case
    by (simp add: optimizer_steps_def funpow_swap1)
qed

lemma grpo_update_world:
  assumes "grpo_update traj w optimizer n eps = Inr (l, w')"
  shows "(w_policy w', w_optimizer w')
           = optimizer_steps optimizer
               (batch_loss eps traj (calc_advantages_with_grpo traj)) n
               (w_policy w, w_optimizer w) \<and>
         w_env w' = w_env w \<and> w_rng w' = w_rng w"
proof -
  from assms obtain l' where
    "update_loop optimizer eps traj (calc_advantages_with_grpo traj) n (w, None) = Inr (w', l')"
    by (auto simp: grpo_update_def Let_def split: sum.splits option.splits)
  then show ?thesis by (rule update_loop_world)
qed

lemma stub_optimizer_steps:
  "optimizer_steps stub_optimizer loss n p = p"
  by (induction n) (simp_all add: optimizer_steps_def stub_optimizer_def split_def)

lemma train_episode_policy:
  assumes "train_episode envs sample stub_optimizer M st = Inr (st', stop)"
  shows "w_policy (ts_world st') = w_policy (ts_world st)"
proof -
  from assms obtain traj ep w1 l w2 where
    c: "collect_trajectory_vectorized envs sample (ts_world st) M (99 / 100) = Inr ((traj, ep), w1)"
    and u: "grpo_update traj w1 stub_optimizer 20 (2 / 10) = Inr (l, w2)"
    and s: "ts_world st' = w2"
    by (auto simp: train_episode_def Let_def split: sum.splits prod.splits if_splits)
  from grpo_update_world [OF u] have "w_policy w2 = w_policy w1"
    by (simp add: stub_optimizer_steps)
  with collector_world(1) [OF c] s show ?thesis by simp
qed

lemma train_loop_policy:
  assumes "train_loop envs sample stub_optimizer M n st = Inr st'"
  shows "w_policy (ts_world st') = w_policy (ts_world st)"
  using assms
proof (induction n arbitrary: st)
  case 0
  then show ?case by simp
next
  case (Suc n)
  from Suc.prems obtain st1 stop where
    e: "train_episode envs sample stub_optimizer M st = Inr (st1, stop)"
    by (auto split: sum.splits)
  from train_episode_policy [OF e] have p: "w_policy (ts_world st1) = w_policy (ts_world st)" .
  show ?case
  proof (cases stop)
    case True
    with Suc.prems e p show ?thesis by simp
  next
    case False
    with Suc.prems e have "train_loop envs sample stub_optimizer M n st1 = Inr st'" by simp
    from Suc.IH [OF this] p show ?thesis by simp
  qed
qed

lemma update_loop_stub:
  assumes "traj_all_states traj \<noteq> []"
  shows "update_loop stub_optimizer eps traj adv (Suc n) (w, l)
           = Inr (w, Some (batch_loss eps traj adv (w_policy w)))"
  using assms
  by (induction n arbitrary: l) (simp_all add: stub_optimizer_def Let_def)

lemma grpo_update_stub:
  assumes "traj_all_states traj \<noteq> []"
  shows "grpo_update traj w stub_optimizer 20 eps
           = Inr (batch_loss eps traj (calc_advantages_with_grpo traj) (w_policy w), w)"
proof -
  have "(20::nat) = Suc 19" by simp
  then show ?thesis
    by (simp only: grpo_update_def Let_def update_loop_stub [OF assms]) simp
qed

lemma train_episode_stub:
  "train_episode stub_envs stub_sample stub_optimizer 500
     \<lparr>ts_world = stub_world, return_list = [], iterations = 0\<rparr> = Inr (stub_final, True)"
proof -
  have ne: "traj_all_states stub_trajectories \<noteq> []" by (simp add: stub_trajectories_def)
  show ?thesis
    by (simp add: train_episode_def stub_collect grpo_update_stub [OF ne] stub_final_def)
qed

lemma training_stub:
  "training stub_envs stub_sample (stub_optimizer :: unit optimizer) stub_world = Inr stub_final"
proof -
  have "(100::nat) = Suc 99" by simp
  then show ?thesis
    by (simp only: training_def max_steps_def episode_num_def train_loop.simps
        train_episode_stub) simp
qed

lemma stub_mean_episode_reward:
  "mean_episode_reward stub_envs stub_sample max_steps stub_world = 999 / 2"
  by (simp add: mean_episode_reward_def max_steps_def stub_collect)

text \<open>
  One iteration that does not raise: the value appended is the mean of the episode
  rewards of its collection, the loop is left when that mean exceeds M - 5, and the
  world is the one after the collection and the update.
\<close>

lemma train_episode_result:
  assumes "train_episode envs sample optimizer M st = Inr (st', stop)"
  shows "return_list st' = return_list st @ [mean_episode_reward envs sample M (ts_world st)]"
    and "iterations st' = Suc (iterations st)"
    and "stop = (mean_episode_reward envs sample M (ts_world st) > real M - 5)"
    and "ts_world st' = world_after_iteration envs sample optimizer M (ts_world st)"
  using assms
  by (auto simp: train_episode_def mean_episode_reward_def world_after_iteration_def Let_def
      split: sum.splits prod.splits if_splits)

lemma train_loop_result:
  assumes "train_loop envs sample optimizer M n st = Inr st'"
  shows "\<exists>vs. return_list st' = return_list st @ vs \<and>
              iterations st' = iterations st + length vs \<and>
              length vs \<le> n \<and>
              (0 < n \<longrightarrow> vs \<noteq> []) \<and>
              (\<forall>k < length vs.
                 vs ! k = mean_episode_reward envs sample M
                            ((world_after_iteration envs sample optimizer M ^^ k) (ts_world st))) \<and>
              ts_world st'
                = (world_after_iteration envs sample optimizer M ^^ length vs) (ts_world st) \<and>
              (\<forall>v \<in> set (butlast vs). \<not> v > real M - 5) \<and>
              (length vs < n \<longrightarrow> last vs > real M - 5)"
  using assms
proof (induction n arbitrary: st)
  case 0
  then show ?case by simp
next
  case (Suc n)
  let ?W = "world_after_iteration envs sample optimizer M"
  let ?v = "mean_episode_reward envs sample M (ts_world st)"
  from Suc.prems obtain st1 stop where
    e: "train_episode envs sample optimizer M st = Inr (st1, stop)"
    by (auto split: sum.splits)
  note v = train_episode_result [OF e]
  show ?case
  proof (cases stop)
    case True
    with Suc.prems e have "st' = st1" by simp
    with v True show ?thesis by (intro exI [of _ "[?v]"]) simp
  next
    case False
    with Suc.prems e have "train_loop envs sample optimizer M n st1 = Inr st'" by simp
    from Suc.IH [OF this] obtain vs where
      vs: "return_list st' = return_list st1 @ vs"
          "iterations st' = iterations st1 + length vs"
          "length vs \<le> n"
          "0 < n \<longrightarrow> vs \<noteq> []"
          "\<forall>k < length vs. vs ! k = mean_episode_reward envs sample M ((?W ^^ k) (ts_world st1))"
          "ts_world st' = (?W ^^ length vs) (ts_world st1)"
          "\<forall>v \<in> set (butlast vs). \<not> v > real M - 5"
          "length vs < n \<longrightarrow> last vs > real M - 5"
      by blast
    from vs(4) have ne: "length vs < n \<Longrightarrow> vs \<noteq> []" by auto
    have vals: "(?v # vs) ! k = mean_episode_reward envs sample M ((?W ^^ k) (ts_world st))"
      if "k < length (?v # vs)" for k
    proof (cases k)
      case 0
      then show ?thesis by simp
    next
      case (Suc j)
      with that have "j < length vs" by simp
      with vs(5) have "vs ! j = mean_episode_reward envs sample M ((?W ^^ j) (ts_world st1))"
        by blast
      with Suc v(4) show ?thesis by (simp add: funpow_swap1)
    qed
    have world: "ts_world st' = (?W ^^ length (?v # vs)) (ts_world st)"
      using vs(6) v(4) by (simp add: funpow_swap1)
    from v(1,2,3) False vs(1,2,3,7,8) ne vals world show ?thesis
      by (intro exI [of _ "?v # vs"]) (auto simp: butlast.simps)
  qed
qed

lemma update_loop_returns:
  assumes "traj_all_states traj \<noteq> []"
  shows "\<exists>w' l'. update_loop optimizer eps traj adv (Suc n) (w, l) = Inr (w', Some l')"
  using assms
proof (induction n arbitrary: w l)
  case 0
  then show ?case by (simp add: Let_def split_def)
next
  case (Suc n)
  let ?p = "optimizer (batch_loss eps traj adv) (w_policy w) (w_optimizer w)"
  from Suc.IH [OF Suc.prems, of "w\<lparr>w_policy := fst ?p, w_optimizer := snd ?p\<rparr>"
      "Some (batch_loss eps traj adv (w_policy w))"]
  obtain w' l' where
    "update_loop optimizer eps traj adv (Suc n)
       (w\<lparr>w_policy := fst ?p, w_optimizer := snd ?p\<rparr>,
        Some (batch_loss eps traj adv (w_policy w))) = Inr (w', Some l')"
    by blast
  with Suc.prems show ?case
    by (subst update_loop.simps(2)) (simp add: Let_def split_def)
qed

lemma grpo_update_returns:
  assumes "traj_all_states traj \<noteq> []"
  shows "\<exists>l w'. grpo_update traj w optimizer 20 eps = Inr (l, w')"
proof -
  have n: "(20::nat) = Suc 19" by simp
  from update_loop_returns [OF assms, of optimizer eps "calc_advantages_with_grpo traj" 19 w None]
  obtain w' l' where
    "update_loop optimizer eps traj (calc_advantages_with_grpo traj) (Suc 19) (w, None)
       = Inr (w', Some l')"
    by blast
  then show ?thesis
    by (simp only: grpo_update_def Let_def n) simp
qed

lemma train_episode_returns:
  assumes "env_ok envs" and "sampler_ok sample" and "2 \<le> num_envs envs"
    and "obs_ok envs" and "0 < M"
  shows "\<exists>st' stop. train_episode envs sample optimizer M st = Inr (st', stop)"
proof -
  from collector_returns [OF assms] obtain traj ep w1 where
    c: "collect_trajectory_vectorized envs sample (ts_world st) M (99 / 100)
          = Inr ((traj, ep), w1)"
    by blast
  from collector_result [OF c] obtain s where
    s: "collect_loop envs sample M (collect_init envs (ts_world st)) = Inr s" by blast
  from collector_dims(1) [OF assms(1,2) c s] assms(3)
  have ne: "traj_all_states traj \<noteq> []" by auto
  from collector_rewards(2) [OF assms(1,2) c] assms(3) have ep: "length ep \<noteq> 0" by simp
  from grpo_update_returns [OF ne] obtain l w2 where
    u: "grpo_update traj w1 optimizer 20 (2 / 10) = Inr (l, w2)"
    by blast
  from c u ep show ?thesis
    by (simp add: train_episode_def Let_def)
qed

lemma train_loop_returns:
  assumes "env_ok envs" and "sampler_ok sample" and "2 \<le> num_envs envs"
    and "obs_ok envs" and "0 < M"
  shows "\<exists>st'. train_loop envs sample optimizer M n st = Inr st'"
proof (induction n arbitrary: st)
  case 0
  show ?case by simp
next
  case (Suc n)
  from train_episode_returns [OF assms] obtain st1 stop where
    e: "train_episode envs sample optimizer M st = Inr (st1, stop)"
    by blast
  from Suc.IH [of st1] e show ?case by (cases stop) simp_all
qed

text \<open>
  With a well-formed environment and sampler, at least two environments and
  observations that have a cart position, no iteration raises.
\<close>

lemma training_returns:
  assumes "env_ok envs" and "sampler_ok sample" and "2 \<le> num_envs envs" and "obs_ok envs"
  shows "\<exists>st. training envs sample optimizer w = Inr st"
  unfolding training_def
  by (rule train_loop_returns [OF assms]) (simp add: max_steps_def)

section \<open>Properties of the training\<close>

text \<open>
  Claim C8. Running the collector leaves the policy parameters (and the optimizer)
  unchanged. The update routine leaves the environment and the random number generator
  unchanged, and the parameters it returns are those reached from the old ones by its
  optimizer steps, one per iteration, and nothing else; so with an optimizer whose step
  changes nothing, the whole training leaves the parameters as they were.
\<close>

theorem policy_mutated_only_by_optimizer_step:
  "(collect_trajectory_vectorized envs sample w T gamma = Inr (out, w1)
      \<longrightarrow> w_policy w1 = w_policy w \<and> w_optimizer w1 = w_optimizer w) \<and>
   (grpo_update traj w optimizer n eps = Inr (l, w2)
      \<longrightarrow> (w_policy w2, w_optimizer w2)
            = optimizer_steps optimizer
                (batch_loss eps traj (calc_advantages_with_grpo traj)) n
                (w_policy w, w_optimizer w) \<and>
          w_env w2 = w_env w \<and> w_rng w2 = w_rng w) \<and>
   (training envs sample stub_optimizer w = Inr st \<longrightarrow> w_policy (ts_world st) = w_policy w)"
proof (intro conjI impI)
  assume "collect_trajectory_vectorized envs sample w T gamma = Inr (out, w1)"
  then show "w_policy w1 = w_policy w" and "w_optimizer w1 = w_optimizer w"
    by (rule collector_world)+
next
  assume "grpo_update traj w optimizer n eps = Inr (l, w2)"
  from grpo_update_world [OF this]
  show "(w_policy w2, w_optimizer w2)
          = optimizer_steps optimizer
              (batch_loss eps traj (calc_advantages_with_grpo traj)) n
              (w_policy w, w_optimizer w)"
    and "w_env w2 = w_env w" and "w_rng w2 = w_rng w"
    by simp_all
next
  assume "training envs sample stub_optimizer w = Inr st"
  then show "w_policy (ts_world st) = w_policy w"
    using train_loop_policy [of envs sample max_steps episode_num _ st]
    by (simp add: training_def)
qed

theorem policy_mutated_only_by_optimizer_step_witness:
  "w_policy (stub_world\<lparr>w_env := 2\<rparr>) = w_policy stub_world \<and>
   (w_policy stub_world, w_optimizer stub_world)
     = optimizer_steps stub_optimizer
         (batch_loss (2 / 10) stub_trajectories (calc_advantages_with_grpo stub_trajectories)) 20
         (w_policy stub_world, w_optimizer stub_world) \<and>
   w_policy (ts_world stub_final) = w_policy stub_world"
proof -
  have ne: "traj_all_states stub_trajectories \<noteq> []" by (simp add: stub_trajectories_def)
  from policy_mutated_only_by_optimizer_step
    [of stub_envs stub_sample stub_world 500 "99 / 100" "(stub_trajectories, [999, 0])"
        "stub_world\<lparr>w_env := 2\<rparr>" stub_trajectories stub_optimizer 20 "2 / 10"
        "batch_loss (2 / 10) stub_trajectories (calc_advantages_with_grpo stub_trajectories)
           (w_policy stub_world)"
        stub_world stub_final]
    stub_collect [of "99 / 100"] grpo_update_stub [OF ne, of stub_world "2 / 10"]
    training_stub
  show ?thesis by blast
qed

text \<open>
  Claim C9. When the training loop ends, it has executed at least one and at most 100
  iterations, and the reward curve has one point per iteration executed: point k is
  the mean of the episode rewards that the collector returns in iteration k, in the
  world left by the collections and updates of the iterations before. No point but the
  last exceeds max-steps - 5, and when fewer than 100 iterations were executed the last
  point does: the loop stops at the first iteration whose mean episode reward exceeds
  max-steps - 5. With a well-formed environment and sampler, at least two environments,
  a policy network that fits the environment and an optimizer that keeps it fitting,
  the loop does end.
\<close>

theorem reward_curve_has_one_point_per_iteration:
  "(training envs sample optimizer w = Inr st \<longrightarrow>
      length (return_list st) = iterations st \<and>
      1 \<le> iterations st \<and> iterations st \<le> 100 \<and>
      (\<forall>k < iterations st.
         return_list st ! k =
           mean_episode_reward envs sample max_steps
             ((world_after_iteration envs sample optimizer max_steps ^^ k) w)) \<and>
      ts_world st
        = (world_after_iteration envs sample optimizer max_steps ^^ iterations st) w \<and>
      (\<forall>k < iterations st - 1. \<not> return_list st ! k > real max_steps - 5) \<and>
      (iterations st < 100 \<longrightarrow> last (return_list st) > real max_steps - 5)) \<and>
   (env_ok envs \<and> sampler_ok sample \<and> 2 \<le> num_envs envs \<and>
    fits envs sample (w_policy w) \<and> keeps_fit envs sample optimizer \<longrightarrow>
      (\<exists>st'. training envs sample optimizer w = Inr st'))"
proof (intro conjI impI)
  assume r: "training envs sample optimizer w = Inr st"
  let ?W = "world_after_iteration envs sample optimizer max_steps"
  from r train_loop_result
    [of envs sample optimizer max_steps episode_num
        "\<lparr>ts_world = w, return_list = [], iterations = 0\<rparr>" st]
  obtain vs where
    vs: "return_list st = vs" "iterations st = length vs" "length vs \<le> episode_num"
        "0 < episode_num \<longrightarrow> vs \<noteq> []"
        "\<forall>k < length vs. vs ! k = mean_episode_reward envs sample max_steps ((?W ^^ k) w)"
        "ts_world st = (?W ^^ length vs) w"
        "\<forall>v \<in> set (butlast vs). \<not> v > real max_steps - 5"
        "length vs < episode_num \<longrightarrow> last vs > real max_steps - 5"
    by (auto simp: training_def)
  have b: "\<not> vs ! k > real max_steps - 5" if "k < length vs - 1" for k
  proof -
    from that have "vs ! k = butlast vs ! k" by (simp add: nth_butlast)
    moreover from that have "butlast vs ! k \<in> set (butlast vs)" by simp
    ultimately show ?thesis using vs(7) by auto
  qed
  from vs show "length (return_list st) = iterations st" by simp
  from vs show "1 \<le> iterations st" by (auto simp: episode_num_def Suc_le_eq)
  from vs show "iterations st \<le> 100" by (simp add: episode_num_def)
  from vs(1,2,5) show "\<forall>k < iterations st.
         return_list st ! k = mean_episode_reward envs sample max_steps ((?W ^^ k) w)"
    by simp
  from vs(2,6) show "ts_world st = (?W ^^ iterations st) w" by simp
  from vs b show "\<forall>k < iterations st - 1. \<not> return_list st ! k > real max_steps - 5"
    by simp
  assume "iterations st < 100"
  with vs show "last (return_list st) > real max_steps - 5"
    by (simp add: episode_num_def)
next
  assume "env_ok envs \<and> sampler_ok sample \<and> 2 \<le> num_envs envs \<and>
    fits envs sample (w_policy w) \<and> keeps_fit envs sample optimizer"
  then have "env_ok envs" "sampler_ok sample" "2 \<le> num_envs envs" "obs_ok envs"
    by (auto intro: fits_obs_ok)
  then show "\<exists>st'. training envs sample optimizer w = Inr st'"
    by (rule training_returns)
qed

theorem reward_curve_has_one_point_per_iteration_witness:
  "length (return_list stub_final) = iterations stub_final \<and>
   1 \<le> iterations stub_final \<and> iterations stub_final \<le> 100 \<and>
   return_list stub_final ! 0 =
     mean_episode_reward stub_envs stub_sample max_steps
       ((world_after_iteration stub_envs stub_sample (stub_optimizer :: unit optimizer)
           max_steps ^^ 0) stub_world) \<and>
   mean_episode_reward stub_envs stub_sample max_steps stub_world = 999 / 2 \<and>
   last (return_list stub_final) > real max_steps - 5 \<and>
   return_list stub_final = [999 / 2] \<and> iterations stub_final = 1 \<and>
   2 \<le> num_envs stub_envs \<and> fits stub_envs stub_sample (w_policy stub_world) \<and>
   keeps_fit stub_envs stub_sample (stub_optimizer :: unit optimizer) \<and>
   (\<exists>st'. training stub_envs stub_sample (stub_optimizer :: unit optimizer) stub_world
            = Inr st')"
proof -
  have c: "return_list stub_final = [999 / 2]" "iterations stub_final = 1"
    by (simp_all add: stub_final_def)
  then have i: "iterations stub_final < 100" "0 < iterations stub_final" by simp_all
  have n: "2 \<le> num_envs stub_envs" by (simp add: stub_envs_def)
  have f: "fits stub_envs stub_sample (w_policy stub_world)"
    using stub_fits by (simp add: stub_world_def)
  have o: "keeps_fit stub_envs stub_sample (stub_optimizer :: unit optimizer)"
    by (rule stub_keeps_fit)
  from reward_curve_has_one_point_per_iteration
    [of stub_envs stub_sample "stub_optimizer :: unit optimizer" stub_world stub_final]
    training_stub c i stub_envs_ok stub_sample_ok f o n stub_mean_episode_reward
  show ?thesis by blast
qed

end
